theory Spec2Isabelle
  imports Main "HOL-Library.AList" "HOL-Library.Multiset" "HOL-Library.Sublist"
begin

section \<open>JavaScript strings\<close>

text \<open>
  A JavaScript string is a sequence of UTF-16 code units. The development uses
  \<^typ>\<open>string\<close>, whose characters are the code units below 256; every character the
  code under study inspects (identifier characters, braces, the dollar sign, line
  breaks) lies in that range. Of the white space that \<^verbatim>\<open>String.prototype.trim\<close>
  removes, the range holds TAB, LF, VT, FF, CR, SPACE and NO-BREAK SPACE.
\<close>

definition isWhiteSpace :: "char \<Rightarrow> bool" where
  "isWhiteSpace c \<longleftrightarrow> (of_char c :: nat) \<in> {9, 10, 11, 12, 13, 32, 160}"

definition trimStart :: "string \<Rightarrow> string" where
  "trimStart s = dropWhile isWhiteSpace s"

definition trimEnd :: "string \<Rightarrow> string" where
  "trimEnd s = rev (dropWhile isWhiteSpace (rev s))"

definition trim :: "string \<Rightarrow> string" where
  "trim s = trimEnd (trimStart s)"

text \<open>The pattern \<^verbatim>\<open>/^[a-zA-Z0-9_-]+$/\<close> used for block names.\<close>

definition isNameChar :: "char \<Rightarrow> bool" where
  "isNameChar c \<longleftrightarrow>
     (let n = (of_char c :: nat) in
        (97 \<le> n \<and> n \<le> 122) \<or> (65 \<le> n \<and> n \<le> 90) \<or> (48 \<le> n \<and> n \<le> 57)
        \<or> n = 95 \<or> n = 45)"

definition matchesNamePattern :: "string \<Rightarrow> bool" where
  "matchesNamePattern s \<longleftrightarrow> s \<noteq> [] \<and> list_all isNameChar s"

section \<open>PromptCategory\<close>

datatype PromptCategory = ANALYSIS | VISUALIZATION | REPORTING | METHODOLOGY

fun categoryValue :: "PromptCategory \<Rightarrow> string" where
  "categoryValue ANALYSIS = ''analysis''"
| "categoryValue VISUALIZATION = ''visualization''"
| "categoryValue REPORTING = ''reporting''"
| "categoryValue METHODOLOGY = ''methodology''"

definition getAllCategories :: "PromptCategory list" where
  "getAllCategories = [ANALYSIS, VISUALIZATION, REPORTING, METHODOLOGY]"

definition isValidCategory :: "string \<Rightarrow> bool" where
  "isValidCategory s \<longleftrightarrow> s \<in> set (map categoryValue getAllCategories)"

text \<open>
  The cast \<^verbatim>\<open>data.category as PromptCategory\<close>: at run time the enum member is the
  string itself, so the cast of a valid string is the member with that value.
\<close>

definition asPromptCategory :: "string \<Rightarrow> PromptCategory option" where
  "asPromptCategory s = find (\<lambda>c. categoryValue c = s) getAllCategories"

fun getCategoryDisplayName :: "PromptCategory \<Rightarrow> string" where
  "getCategoryDisplayName ANALYSIS = ''Analysis''"
| "getCategoryDisplayName VISUALIZATION = ''Visualization''"
| "getCategoryDisplayName REPORTING = ''Reporting''"
| "getCategoryDisplayName METHODOLOGY = ''Methodology''"

section \<open>PromptBlock\<close>

record PromptVariable =
  var_name :: string
  var_description :: string
  var_required :: bool
  defaultValue :: "string option"

datatype OutputType = Output_text | Output_code | Output_chart | Output_markdown

record PromptOutput =
  out_type :: OutputType
  out_description :: string
  out_format :: "string option"

text \<open>
  \<^verbatim>\<open>PromptBlockData\<close>: the optional fields are options, \<open>None\<close> for an omitted
  field. Priorities are integers here (the numbers the range check admits are
  compared and subtracted only).
\<close>

record PromptBlockData =
  data_name :: string
  data_description :: "string option"
  data_category :: string
  data_tags :: "string list option"
  data_prompt :: string
  data_variables :: "PromptVariable list option"
  data_outputs :: "PromptOutput list option"
  data_priority :: "int option"
  data_enabled :: "bool option"

record PromptBlock =
  name :: string
  description :: string
  category :: PromptCategory
  tags :: "string list"
  prompt :: string
  variables :: "PromptVariable list"
  outputs :: "PromptOutput list"
  priority :: int
  enabled :: bool

text \<open>\<^verbatim>\<open>PromptBlockValidationError(message, field)\<close>.\<close>

record PromptBlockValidationError =
  message :: string
  field :: "string option"

definition validationError :: "string \<Rightarrow> string \<Rightarrow> PromptBlockValidationError" where
  "validationError m f = \<lparr>message = m, field = Some f\<rparr>"

text \<open>
  \<^verbatim>\<open>PromptBlock.create\<close>. Each \<^verbatim>\<open>throw\<close> is an \<open>Inl\<close>, in the order of the
  source's checks.
\<close>

definition create :: "PromptBlockData \<Rightarrow> PromptBlockValidationError + PromptBlock" where
  "create d =
    (if trim (data_name d) = [] then Inl (validationError ''Name is required'' ''name'')
     else if trim (data_prompt d) = [] then
       Inl (validationError ''Prompt is required'' ''prompt'')
     else if trim (data_category d) = [] then
       Inl (validationError ''Category is required'' ''category'')
     else case asPromptCategory (data_category d) of
       None \<Rightarrow>
         Inl (validationError
           (''Invalid category: '' @ data_category d @
            ''. Must be one of: analysis, visualization, reporting, methodology'')
           ''category'')
     | Some cat \<Rightarrow>
       if \<not> matchesNamePattern (data_name d) then
         Inl (validationError
           ''Name must contain only letters, numbers, underscores, and hyphens'' ''name'')
       else if (case data_variables d of None \<Rightarrow> False
                | Some vs \<Rightarrow> list_ex (\<lambda>v. trim (var_name v) = []) vs) then
         Inl (validationError ''Variable name is required'' ''variables'')
       else
         let priority = (case data_priority d of None \<Rightarrow> 50 | Some p \<Rightarrow> p) in
         if priority < 0 \<or> priority > 100 then
           Inl (validationError ''Priority must be between 0 and 100'' ''priority'')
         else Inr \<lparr>
           name = trim (data_name d),
           description = (case data_description d of None \<Rightarrow> [] | Some s \<Rightarrow> trim s),
           category = cat,
           tags = (case data_tags d of None \<Rightarrow> [] | Some ts \<Rightarrow> ts),
           prompt = trim (data_prompt d),
           variables = (case data_variables d of None \<Rightarrow> [] | Some vs \<Rightarrow> vs),
           outputs = (case data_outputs d of None \<Rightarrow> [] | Some os \<Rightarrow> os),
           priority = priority,
           enabled = (case data_enabled d of None \<Rightarrow> True | Some e \<Rightarrow> e)\<rparr>)"

definition hasVariables :: "PromptBlock \<Rightarrow> bool" where
  "hasVariables b \<longleftrightarrow> length (variables b) > 0"

definition isEnabled :: "PromptBlock \<Rightarrow> bool" where
  "isEnabled b = enabled b"

definition toData :: "PromptBlock \<Rightarrow> PromptBlockData" where
  "toData b = \<lparr>
     data_name = name b,
     data_description = Some (description b),
     data_category = categoryValue (category b),
     data_tags = Some (tags b),
     data_prompt = prompt b,
     data_variables = Some (variables b),
     data_outputs = Some (outputs b),
     data_priority = Some (priority b),
     data_enabled = Some (enabled b)\<rparr>"

definition withEnabled :: "PromptBlock \<Rightarrow> bool \<Rightarrow> PromptBlock" where
  "withEnabled b e = b\<lparr>enabled := e\<rparr>"


subsection \<open>Template variables\<close>

text \<open>
  \<^verbatim>\<open>resolvePrompt\<close> builds \<^verbatim>\<open>new RegExp(`{{${variable.name}}}`, "g")\<close> from the
  variable's name, which \<^verbatim>\<open>create\<close> does not restrict beyond being non-blank. The
  development covers the names for which that pattern is a literal: names without a
  character of regular-expression syntax and not of the shape of a braced quantifier
  (\<^verbatim>\<open>{{2}}\<close> is the pattern "an opening brace twice, then a closing brace").
  It also leaves out the names an object inherits from \<^verbatim>\<open>Object.prototype\<close>, which
  \<^verbatim>\<open>variableValues?.[variable.name]\<close> would find on a plain object. For every other
  name the result is \<open>None\<close>: there the engine finds a different set of matches or, as
  for a name that opens a group without closing it, \<^verbatim>\<open>new RegExp\<close> throws a
  \<^verbatim>\<open>SyntaxError\<close>; which of the two is outside the model.
\<close>

definition regexSyntaxChars :: "char list" where
  "regexSyntaxChars = CHR 0x5C # ''^$.*+?()[]{}|''"

definition isDigit :: "char \<Rightarrow> bool" where
  "isDigit c \<longleftrightarrow> (let n = (of_char c :: nat) in 48 \<le> n \<and> n \<le> 57)"

definition isBracedQuantifierBody :: "string \<Rightarrow> bool" where
  "isBracedQuantifierBody s \<longleftrightarrow>
     (let ds = takeWhile isDigit s; r = dropWhile isDigit s in
        ds \<noteq> [] \<and> (case r of [] \<Rightarrow> True | c # r' \<Rightarrow> c = CHR '','' \<and> list_all isDigit r'))"

definition objectPrototypeKeys :: "string list" where
  "objectPrototypeKeys =
     [''constructor'', ''hasOwnProperty'', ''isPrototypeOf'', ''propertyIsEnumerable'',
      ''toLocaleString'', ''toString'', ''valueOf'', ''__proto__'',
      ''__defineGetter__'', ''__defineSetter__'', ''__lookupGetter__'', ''__lookupSetter__'']"

definition literalPlaceholder :: "string \<Rightarrow> bool" where
  "literalPlaceholder n \<longleftrightarrow>
     list_all (\<lambda>c. c \<notin> set regexSyntaxChars) n \<and> \<not> isBracedQuantifierBody n
     \<and> n \<notin> set objectPrototypeKeys"

definition placeholder :: "string \<Rightarrow> string" where
  "placeholder n = ''{{'' @ n @ ''}}''"

text \<open>
  \<^verbatim>\<open>GetSubstitution\<close> of ECMAScript for a pattern without capture groups: in the
  replacement text, \<^verbatim>\<open>$$\<close> is a dollar sign, \<^verbatim>\<open>$&\<close> the matched text, \<^verbatim>\<open>$`\<close> the
  subject before the match and \<^verbatim>\<open>$'\<close> the subject after it; every other character,
  a dollar sign before anything else included, stands for itself.
\<close>

fun getSubstitution :: "string \<Rightarrow> string \<Rightarrow> string \<Rightarrow> string \<Rightarrow> string" where
  "getSubstitution matched preceding following [] = []"
| "getSubstitution matched preceding following [c] = [c]"
| "getSubstitution matched preceding following (c # d # r) =
     (if c = CHR ''$'' \<and> d = CHR ''$'' then CHR ''$'' # getSubstitution matched preceding following r
      else if c = CHR ''$'' \<and> d = CHR ''&'' then matched @ getSubstitution matched preceding following r
      else if c = CHR ''$'' \<and> d = CHR 0x60 then preceding @ getSubstitution matched preceding following r
      else if c = CHR ''$'' \<and> d = CHR 0x27 then following @ getSubstitution matched preceding following r
      else c # getSubstitution matched preceding following (d # r))"

text \<open>
  \<^verbatim>\<open>subject.replace(new RegExp(p, "g"), replacement)\<close> for a literal, non-empty
  pattern \<open>p\<close>: the subject is scanned from the left, each match is replaced and the scan
  goes on behind it. \<open>preceding\<close> is the part of the subject already scanned.
\<close>

function replaceAllMatches :: "string \<Rightarrow> string \<Rightarrow> string \<Rightarrow> string \<Rightarrow> string" where
  "replaceAllMatches p replacement preceding [] = []"
| "replaceAllMatches p replacement preceding (c # cs) =
     (if p \<noteq> [] \<and> take (length p) (c # cs) = p then
        getSubstitution p preceding (drop (length p) (c # cs)) replacement
        @ replaceAllMatches p replacement (preceding @ p) (drop (length p) (c # cs))
      else c # replaceAllMatches p replacement (preceding @ [c]) cs)"
  by pat_completeness auto
termination
  by (relation "measure (\<lambda>(p, r, b, s). length s)") auto

text \<open>\<^verbatim>\<open>variableValues?.[variable.name] || variable.defaultValue || ""\<close>\<close>

definition substitutionValue :: "(string \<times> string) list option \<Rightarrow> PromptVariable \<Rightarrow> string" where
  "substitutionValue variableValues v =
     (let supplied = (case variableValues of None \<Rightarrow> None
                      | Some vals \<Rightarrow> map_of vals (var_name v)) in
      if supplied \<noteq> None \<and> supplied \<noteq> Some [] then (case supplied of Some x \<Rightarrow> x | None \<Rightarrow> [])
      else if defaultValue v \<noteq> None \<and> defaultValue v \<noteq> Some [] then
        (case defaultValue v of Some x \<Rightarrow> x | None \<Rightarrow> [])
      else [])"

text \<open>The loop of \<^verbatim>\<open>resolvePrompt\<close> over the declared variables, in their order.\<close>

fun substituteVariables ::
  "(string \<times> string) list option \<Rightarrow> PromptVariable list \<Rightarrow> string \<Rightarrow> string option" where
  "substituteVariables variableValues [] resolvedPrompt = Some resolvedPrompt"
| "substituteVariables variableValues (v # vs) resolvedPrompt =
     (if literalPlaceholder (var_name v) then
        substituteVariables variableValues vs
          (replaceAllMatches (placeholder (var_name v)) (substitutionValue variableValues v) []
             resolvedPrompt)
      else None)"

definition resolvePrompt :: "PromptBlock \<Rightarrow> (string \<times> string) list option \<Rightarrow> string option" where
  "resolvePrompt b variableValues =
     (if \<not> hasVariables b then Some (prompt b)
      else substituteVariables variableValues (variables b) (prompt b))"

section \<open>EnhanceSystemPrompt\<close>

text \<open>
  \<^verbatim>\<open>ActivePromptConfig\<close>: \<open>config_variables\<close> is the optional object of variable
  values (its own properties, in insertion order), \<open>config_priority\<close> the optional
  effective priority.
\<close>

record ActivePromptConfig =
  block :: PromptBlock
  config_variables :: "(string \<times> string) list option"
  config_priority :: "int option"

record ConflictResolution =
  cr_category :: PromptCategory
  previousBlock :: "string option"
  selectedBlock :: string
  reason :: string

record SystemPromptResult =
  originalPrompt :: string
  enhancedPrompt :: string
  appliedPrompts :: "ActivePromptConfig list"
  conflictResolution :: "ConflictResolution list"
  totalLength :: int
  addedLength :: int

definition createActivePrompt ::
  "PromptBlock \<Rightarrow> (string \<times> string) list option \<Rightarrow> int option \<Rightarrow> ActivePromptConfig" where
  "createActivePrompt b vars p =
     \<lparr>block = b, config_variables = vars,
      config_priority = Some (case p of None \<Rightarrow> priority b | Some q \<Rightarrow> q)\<rparr>"

text \<open>
  The comparator \<^verbatim>\<open>(a, b) => b.priority! - a.priority!\<close>. With an undefined priority
  the difference is \<^verbatim>\<open>NaN\<close>, which \<^verbatim>\<open>sort\<close> reads as \<open>0\<close>.
\<close>

definition comparePriority :: "ActivePromptConfig \<Rightarrow> ActivePromptConfig \<Rightarrow> int" where
  "comparePriority a b =
     (case (config_priority b, config_priority a) of
        (Some pb, Some pa) \<Rightarrow> pb - pa
      | _ \<Rightarrow> 0)"

text \<open>
  \<^verbatim>\<open>Array.prototype.sort\<close> is stable. For a consistent comparator the sorted order
  is then unique, and this insertion sort computes it: an element goes in front of the
  first later element that does not have to precede it. (Where a priority is undefined
  the comparator is not consistent and the order depends on the engine.)
\<close>

fun insertSorted :: "('a \<Rightarrow> 'a \<Rightarrow> int) \<Rightarrow> 'a \<Rightarrow> 'a list \<Rightarrow> 'a list" where
  "insertSorted cmp x [] = [x]"
| "insertSorted cmp x (y # ys) =
     (if cmp x y \<le> 0 then x # y # ys else y # insertSorted cmp x ys)"

definition stableSort :: "('a \<Rightarrow> 'a \<Rightarrow> int) \<Rightarrow> 'a list \<Rightarrow> 'a list" where
  "stableSort cmp xs = foldr (insertSorted cmp) xs []"

text \<open>
  The grouping loop of \<^verbatim>\<open>resolveConflicts\<close>. A JavaScript \<^verbatim>\<open>Map\<close> iterates in
  the order its keys were first inserted, so the map is an association list: a new
  category is appended, a known one has the prompt pushed onto its array in place.
\<close>

fun groupByCategory ::
  "ActivePromptConfig list \<Rightarrow> (PromptCategory \<times> ActivePromptConfig list) list
   \<Rightarrow> (PromptCategory \<times> ActivePromptConfig list) list" where
  "groupByCategory [] categoryMap = categoryMap"
| "groupByCategory (p # ps) categoryMap =
     groupByCategory ps
       (case map_of categoryMap (category (block p)) of
          None \<Rightarrow> AList.update (category (block p)) [p] categoryMap
        | Some prompts \<Rightarrow> AList.update (category (block p)) (prompts @ [p]) categoryMap)"

text \<open>\<^verbatim>\<open>`${n}`\<close> for an optional integer.\<close>

fun natToString :: "nat \<Rightarrow> string" where
  "natToString n =
     (if n < 10 then [char_of (48 + n)]
      else natToString (n div 10) @ [char_of (48 + n mod 10)])"

definition numberToString :: "int option \<Rightarrow> string" where
  "numberToString x =
     (case x of None \<Rightarrow> ''undefined''
      | Some i \<Rightarrow> if i < 0 then CHR ''-'' # natToString (nat (- i)) else natToString (nat i))"

definition conflictRecord ::
  "PromptCategory \<Rightarrow> ActivePromptConfig \<Rightarrow> ActivePromptConfig \<Rightarrow> ConflictResolution" where
  "conflictRecord cat selected conflictPrompt =
     \<lparr>cr_category = cat,
      previousBlock = Some (name (block conflictPrompt)),
      selectedBlock = name (block selected),
      reason = ''Higher priority ('' @ numberToString (config_priority selected) @ '' vs ''
               @ numberToString (config_priority conflictPrompt) @ '')''\<rparr>"

text \<open>
  One round of the second loop of \<^verbatim>\<open>resolveConflicts\<close>, on the pair
  (\<^verbatim>\<open>resolvedPrompts\<close>, \<^verbatim>\<open>conflicts\<close>). No array of the map is empty (each is created
  for the push of its first element), so the sorted array has a first element.
\<close>

definition resolveCategory ::
  "ActivePromptConfig list \<times> ConflictResolution list
   \<Rightarrow> PromptCategory \<times> ActivePromptConfig list
   \<Rightarrow> ActivePromptConfig list \<times> ConflictResolution list" where
  "resolveCategory acc entry =
     (case (acc, entry) of ((resolvedPrompts, conflicts), (cat, prompts)) \<Rightarrow>
        if length prompts = 1 then (resolvedPrompts @ [hd prompts], conflicts)
        else (case stableSort comparePriority prompts of
                [] \<Rightarrow> (resolvedPrompts, conflicts)
              | selected # conflicted \<Rightarrow>
                  (resolvedPrompts @ [selected],
                   conflicts @ map (conflictRecord cat selected) conflicted)))"

definition resolveConflicts ::
  "ActivePromptConfig list \<Rightarrow> ActivePromptConfig list \<times> ConflictResolution list" where
  "resolveConflicts activePrompts =
     foldl resolveCategory ([], []) (groupByCategory activePrompts [])"

definition sortByPriority :: "ActivePromptConfig list \<Rightarrow> ActivePromptConfig list" where
  "sortByPriority prompts = stableSort comparePriority prompts"

text \<open>The loop of \<^verbatim>\<open>concatenatePrompts\<close>; \<open>None\<close> where \<^verbatim>\<open>resolvePrompt\<close> is.\<close>

fun appendPrompts :: "string \<Rightarrow> ActivePromptConfig list \<Rightarrow> string option" where
  "appendPrompts enhanced [] = Some enhanced"
| "appendPrompts enhanced (promptConfig # rest) =
     (case resolvePrompt (block promptConfig) (config_variables promptConfig) of
        None \<Rightarrow> None
      | Some resolvedPrompt \<Rightarrow>
          appendPrompts (enhanced @ [CHR 0x0A, CHR 0x0A] @ trim resolvedPrompt) rest)"

definition concatenatePrompts :: "string \<Rightarrow> ActivePromptConfig list \<Rightarrow> string option" where
  "concatenatePrompts original sortedPrompts =
     (if length sortedPrompts = 0 then Some original
      else appendPrompts (trim original) sortedPrompts)"

definition execute :: "string \<Rightarrow> ActivePromptConfig list \<Rightarrow> SystemPromptResult option" where
  "execute original activePrompts =
     (let startLength = int (length original);
          (resolvedPrompts, conflicts) = resolveConflicts activePrompts;
          sortedPrompts = sortByPriority resolvedPrompts
      in case concatenatePrompts original sortedPrompts of
           None \<Rightarrow> None
         | Some enhanced \<Rightarrow>
             Some \<lparr>originalPrompt = original,
                   enhancedPrompt = enhanced,
                   appliedPrompts = sortedPrompts,
                   conflictResolution = conflicts,
                   totalLength = int (length enhanced),
                   addedLength = int (length enhanced) - startLength\<rparr>)"

section \<open>What substitution means\<close>

text \<open>\<^verbatim>\<open>Array.prototype.join\<close>.\<close>

fun joinWith :: "string \<Rightarrow> string list \<Rightarrow> string" where
  "joinWith sep [] = []"
| "joinWith sep [x] = x"
| "joinWith sep (x # y # r) = x @ sep @ joinWith sep (y # r)"

text \<open>
  \<open>t\<close> is \<open>s\<close> with every occurrence of \<open>p\<close> replaced by \<open>v\<close>: \<open>s\<close> consists of
  segments without an occurrence of \<open>p\<close>, separated by \<open>p\<close>, and \<open>t\<close> of the same
  segments separated by \<open>v\<close>.
\<close>

definition everyOccurrenceReplaced :: "string \<Rightarrow> string \<Rightarrow> string \<Rightarrow> string \<Rightarrow> bool" where
  "everyOccurrenceReplaced p v s t \<longleftrightarrow>
     (\<exists>segments. segments \<noteq> [] \<and> list_all (\<lambda>g. \<not> sublist p g) segments
        \<and> s = joinWith p segments \<and> t = joinWith v segments)"

text \<open>
  The value that stands for a variable: the supplied one when it is not empty, otherwise
  the declared default, otherwise the empty string.
\<close>

definition suppliedValue :: "(string \<times> string) list option \<Rightarrow> PromptVariable \<Rightarrow> string option" where
  "suppliedValue variableValues v =
     (case variableValues of None \<Rightarrow> None | Some vals \<Rightarrow> map_of vals (var_name v))"

definition valueFor :: "(string \<times> string) list option \<Rightarrow> PromptVariable \<Rightarrow> string" where
  "valueFor variableValues v =
     (case suppliedValue variableValues v of
        Some (c # cs) \<Rightarrow> c # cs
      | _ \<Rightarrow> (case defaultValue v of Some d \<Rightarrow> d | None \<Rightarrow> []))"

text \<open>The declared variables are substituted one after the other, in their order.\<close>

fun substitutedInTurn ::
  "(string \<times> string) list option \<Rightarrow> PromptVariable list \<Rightarrow> string \<Rightarrow> string \<Rightarrow> bool" where
  "substitutedInTurn variableValues [] s t \<longleftrightarrow> s = t"
| "substitutedInTurn variableValues (v # vs) s t \<longleftrightarrow>
     (\<exists>u. everyOccurrenceReplaced (placeholder (var_name v)) (valueFor variableValues v) s u
          \<and> substitutedInTurn variableValues vs u t)"

section \<open>What conflict resolution means\<close>

definition categoryOf :: "ActivePromptConfig \<Rightarrow> PromptCategory" where
  "categoryOf p = category (block p)"

definition prioritiesDefined :: "ActivePromptConfig list \<Rightarrow> bool" where
  "prioritiesDefined ps \<longleftrightarrow> list_all (\<lambda>p. config_priority p \<noteq> None) ps"

text \<open>The configs whose blocks declare only variables within the modelled names.\<close>

definition literalVariables :: "ActivePromptConfig list \<Rightarrow> bool" where
  "literalVariables ps \<longleftrightarrow>
     list_all (\<lambda>p. list_all (\<lambda>v. literalPlaceholder (var_name v)) (variables (block p))) ps"

text \<open>\<open>q\<close> has at most the effective priority of \<open>p\<close> (both defined).\<close>

definition atMost :: "ActivePromptConfig \<Rightarrow> ActivePromptConfig \<Rightarrow> bool" where
  "atMost q p \<longleftrightarrow>
     (case (config_priority q, config_priority p) of
        (Some x, Some y) \<Rightarrow> x \<le> y
      | _ \<Rightarrow> False)"

text \<open>\<open>p\<close> has the highest effective priority among the configs of its category.\<close>

definition topOfCategory :: "ActivePromptConfig list \<Rightarrow> ActivePromptConfig \<Rightarrow> bool" where
  "topOfCategory ps p \<longleftrightarrow>
     list_all (\<lambda>q. categoryOf q = categoryOf p \<longrightarrow> atMost q p) ps"

text \<open>The first config, in the order of the input, that is top of category \<open>c\<close>.\<close>

definition firstTop :: "ActivePromptConfig list \<Rightarrow> PromptCategory \<Rightarrow> ActivePromptConfig option" where
  "firstTop ps c = find (\<lambda>p. categoryOf p = c \<and> topOfCategory ps p) ps"

text \<open>The sort key of the comparator, for configs with a defined priority.\<close>

definition priorityKey :: "ActivePromptConfig \<Rightarrow> int" where
  "priorityKey p = (case config_priority p of Some x \<Rightarrow> - x | None \<Rightarrow> 0)"

text \<open>What one category contributes to \<^verbatim>\<open>resolvedPrompts\<close> and to \<^verbatim>\<open>conflicts\<close>.\<close>

definition selectedOf :: "ActivePromptConfig list \<Rightarrow> ActivePromptConfig" where
  "selectedOf prompts = hd (stableSort comparePriority prompts)"

definition conflictedOf :: "ActivePromptConfig list \<Rightarrow> ActivePromptConfig list" where
  "conflictedOf prompts = tl (stableSort comparePriority prompts)"

text \<open>
  The record \<open>cr\<close> notes the loss of \<open>loser\<close>: it names the loser as the previous block
  and, as the selected block, the survivor of the loser's category.
\<close>

definition recordsLoss ::
  "ActivePromptConfig list \<Rightarrow> ActivePromptConfig \<Rightarrow> ConflictResolution \<Rightarrow> bool" where
  "recordsLoss survivors loser cr \<longleftrightarrow>
     cr_category cr = categoryOf loser \<and> previousBlock cr = Some (name (block loser))
     \<and> list_ex (\<lambda>w. categoryOf w = categoryOf loser \<and> selectedBlock cr = name (block w))
          survivors"

section \<open>LoadPromptBlocks\<close>

text \<open>
  The blocks are immutable, the arrays that hold them are not: a result and a cache entry
  hold a reference to an array, and the arrays live in a store. A reference is an index
  into the store; allocation appends.
\<close>

type_synonym ref = nat

type_synonym store = "PromptBlock list list"

definition alloc :: "PromptBlock list \<Rightarrow> store \<Rightarrow> ref \<times> store" where
  "alloc xs h = (length h, h @ [xs])"

definition deref :: "store \<Rightarrow> ref \<Rightarrow> PromptBlock list" where
  "deref h a = (if a < length h then h ! a else [])"

record CacheEntry =
  entry_blocks :: ref
  entry_timestamp :: int
  entry_version :: nat

record LoadPromptBlocksResult =
  blocks :: ref
  loadedCount :: int
  errorCount :: int
  fromCache :: bool
  loadTime :: int

text \<open>
  The repository is injected through its interface: \<open>'r\<close> is the state of whatever
  implements it, and the record holds the operations the use case calls. Each array a
  repository returns is a new one.
\<close>

record 'r IPromptBlockRepository =
  repo_loadAll :: "'r \<Rightarrow> PromptBlock list \<times> 'r"
  repo_loadByCategory :: "PromptCategory \<Rightarrow> 'r \<Rightarrow> PromptBlock list \<times> 'r"
  repo_clearCache :: "'r \<Rightarrow> 'r"

text \<open>
  The state of a \<^verbatim>\<open>LoadPromptBlocks\<close> object and of what it refers to. The \<^verbatim>\<open>Map\<close>
  is an association list in insertion order; the version counter is a natural number
  (the source's number counts up from 0 by 1).
\<close>

record 'r LoadPromptBlocks =
  store :: store
  cache :: "(string \<times> CacheEntry) list"
  cacheVersion :: nat
  repository :: 'r

definition cacheTimeout :: int where
  "cacheTimeout = 5 * 60 * 1000"

text \<open>\<^verbatim>\<open>getCachedBlocks\<close>; \<open>now\<close> is what \<^verbatim>\<open>Date.now()\<close> returns.\<close>

definition getCachedBlocks ::
  "string \<Rightarrow> int \<Rightarrow> 'r LoadPromptBlocks \<Rightarrow> CacheEntry option \<times> 'r LoadPromptBlocks" where
  "getCachedBlocks cacheKey now w =
     (case map_of (cache w) cacheKey of
        Some cached \<Rightarrow>
          if now - entry_timestamp cached < cacheTimeout
             \<and> entry_version cached = cacheVersion w
          then (Some cached, w)
          else (None, w\<lparr>cache := AList.delete cacheKey (cache w)\<rparr>)
      | None \<Rightarrow> (None, w\<lparr>cache := AList.delete cacheKey (cache w)\<rparr>))"

text \<open>\<^verbatim>\<open>cacheBlocks\<close>: the entry holds a new array, a copy of \<^verbatim>\<open>blocks\<close>.\<close>

definition cacheBlocks :: "string \<Rightarrow> ref \<Rightarrow> int \<Rightarrow> 'r LoadPromptBlocks \<Rightarrow> 'r LoadPromptBlocks" where
  "cacheBlocks cacheKey blocksRef now w =
     (let (copy, h) = alloc (deref (store w) blocksRef) (store w)
      in w\<lparr>store := h,
           cache := AList.update cacheKey
             \<lparr>entry_blocks = copy, entry_timestamp = now, entry_version = cacheVersion w\<rparr>
             (cache w)\<rparr>)"

text \<open>
  \<^verbatim>\<open>execute\<close> and \<^verbatim>\<open>executeByCategory\<close> differ in the cache key and in the
  repository call only; \<open>loadThroughCache\<close> is their common body. \<open>clock i\<close> is what the
  \<open>i\<close>-th call of \<^verbatim>\<open>Date.now()\<close> in the invocation returns. On a miss the body awaits
  the repository; \<open>completeLoad\<close> is the part that runs once the repository has answered
  with \<open>loaded\<close>.
\<close>

definition completeLoad ::
  "string \<Rightarrow> PromptBlock list \<Rightarrow> (nat \<Rightarrow> int) \<Rightarrow> 'r LoadPromptBlocks
   \<Rightarrow> LoadPromptBlocksResult \<times> 'r LoadPromptBlocks" where
  "completeLoad cacheKey loaded clock w =
     (let (blocksRef, h2) = alloc loaded (store w);
          (enabledRef, h3) = alloc (filter isEnabled loaded) h2;
          w4 = cacheBlocks cacheKey enabledRef (clock 2) (w\<lparr>store := h3\<rparr>)
      in (\<lparr>blocks = enabledRef,
           loadedCount = int (length (filter isEnabled loaded)),
           errorCount = int (length loaded) - int (length (filter isEnabled loaded)),
           fromCache = False,
           loadTime = clock 3 - clock 0\<rparr>, w4))"

definition loadThroughCache ::
  "string \<Rightarrow> ('r \<Rightarrow> PromptBlock list \<times> 'r) \<Rightarrow> (nat \<Rightarrow> int) \<Rightarrow> 'r LoadPromptBlocks
   \<Rightarrow> LoadPromptBlocksResult \<times> 'r LoadPromptBlocks" where
  "loadThroughCache cacheKey load clock w =
     (let startTime = clock 0;
          (cached, w1) = getCachedBlocks cacheKey (clock 1) w
      in case cached of
           Some entry \<Rightarrow>
             (\<lparr>blocks = entry_blocks entry,
               loadedCount = int (length (deref (store w1) (entry_blocks entry))),
               errorCount = 0,
               fromCache = True,
               loadTime = clock 2 - startTime\<rparr>, w1)
         | None \<Rightarrow>
             let (loaded, r) = load (repository w1)
             in completeLoad cacheKey loaded clock (w1\<lparr>repository := r\<rparr>))"

definition LoadPromptBlocks_execute ::
  "'r IPromptBlockRepository \<Rightarrow> (nat \<Rightarrow> int) \<Rightarrow> 'r LoadPromptBlocks
   \<Rightarrow> LoadPromptBlocksResult \<times> 'r LoadPromptBlocks" where
  "LoadPromptBlocks_execute repo clock w = loadThroughCache ''all'' (repo_loadAll repo) clock w"



text \<open>
  What a caller can do with a reference it was given: change the array behind it, here
  by any function on its contents (\<^verbatim>\<open>push\<close>, \<^verbatim>\<open>pop\<close>, \<^verbatim>\<open>splice\<close>, \<^verbatim>\<open>sort\<close>).
\<close>

definition mutateArray ::
  "ref \<Rightarrow> (PromptBlock list \<Rightarrow> PromptBlock list) \<Rightarrow> 'r LoadPromptBlocks \<Rightarrow> 'r LoadPromptBlocks" where
  "mutateArray a f w = w\<lparr>store := (store w)[a := f (deref (store w) a)]\<rparr>"

definition newLoadPromptBlocks :: "'r \<Rightarrow> 'r LoadPromptBlocks" where
  "newLoadPromptBlocks r = \<lparr>store = [], cache = [], cacheVersion = 0, repository = r\<rparr>"



section \<open>FileSystemPromptBlockRepository\<close>

text \<open>
  The file system the repository reads: a path leads to a file with its content or to a
  directory with its entries in the order \<^verbatim>\<open>readdir\<close> lists them; \<open>None\<close> inside stands
  for a file that cannot be read and a directory that cannot be listed.
\<close>

datatype fs_node = File "string option" | Directory "string list option"

text \<open>
  What the repository is given from outside: the file system, the parser
  (\<^verbatim>\<open>parseFromContent\<close>, which rests on the YAML library; \<open>Inl\<close> is the message of the
  error it throws) and the folders of the editor's workspace.
\<close>

record Environment =
  fs :: "string \<Rightarrow> fs_node option"
  parseFromContent :: "string \<Rightarrow> string \<Rightarrow> string + PromptBlockData"
  workspaceFolders :: "string list"

text \<open>\<^verbatim>\<open>path.join\<close> on normalised segments, with the POSIX separator.\<close>

definition pathJoin :: "string \<Rightarrow> string \<Rightarrow> string" where
  "pathJoin a b = a @ ''/'' @ b"

definition fileExistsAtPath :: "Environment \<Rightarrow> string \<Rightarrow> bool" where
  "fileExistsAtPath env p \<longleftrightarrow> fs env p \<noteq> None"

definition isDirectory :: "Environment \<Rightarrow> string \<Rightarrow> bool" where
  "isDirectory env p \<longleftrightarrow> (case fs env p of Some (Directory entries) \<Rightarrow> True | _ \<Rightarrow> False)"

text \<open>\<^verbatim>\<open>fs.readFile\<close> and \<^verbatim>\<open>fs.readdir\<close>; \<open>Inl\<close> is the message of the error thrown.\<close>

definition readFile :: "Environment \<Rightarrow> string \<Rightarrow> string + string" where
  "readFile env p =
     (case fs env p of
        Some (File (Some content)) \<Rightarrow> Inr content
      | Some (File None) \<Rightarrow> Inl ''EACCES: permission denied''
      | Some (Directory entries) \<Rightarrow> Inl ''EISDIR: illegal operation on a directory''
      | None \<Rightarrow> Inl ''ENOENT: no such file or directory'')"

definition readdir :: "Environment \<Rightarrow> string \<Rightarrow> string + string list" where
  "readdir env p =
     (case fs env p of
        Some (Directory (Some entries)) \<Rightarrow> Inr entries
      | Some (Directory None) \<Rightarrow> Inl ''EACCES: permission denied''
      | Some (File content) \<Rightarrow> Inl ''ENOTDIR: not a directory''
      | None \<Rightarrow> Inl ''ENOENT: no such file or directory'')"

record BlockLoadResult =
  success :: bool
  result_block :: "PromptBlock option"
  error :: "string option"
  source :: string
  filePath :: "string option"

record RepositoryCacheEntry =
  cached_block :: PromptBlock
  cached_timestamp :: int
  cached_source :: string

text \<open>The state of the repository object: its memo cache and its constructor arguments.\<close>

record FileSystemPromptBlockRepository =
  memo :: "(string \<times> RepositoryCacheEntry) list"
  workspacePath :: "string option"
  globalPath :: "string option"
  defaultsPath :: "string option"

text \<open>\<^verbatim>\<open>if (this.workspacePath)\<close>: an absent path and the empty string are both falsy.\<close>

definition configured :: "string option \<Rightarrow> string \<Rightarrow> (string \<times> string) list" where
  "configured p src =
     (case p of None \<Rightarrow> [] | Some root \<Rightarrow>
        if root = [] then [] else [(pathJoin root ''prompts'', src)])"

definition addWorkspaceFolder :: "(string \<times> string) list \<Rightarrow> string \<Rightarrow> (string \<times> string) list" where
  "addWorkspaceFolder paths folder =
     (let workspacePromptsPath = pathJoin (pathJoin folder ''.oacode'') ''prompts''
      in if list_ex (\<lambda>p. fst p = workspacePromptsPath) paths then paths
         else paths @ [(workspacePromptsPath, ''workspace'')])"

definition getSearchPaths ::
  "Environment \<Rightarrow> FileSystemPromptBlockRepository \<Rightarrow> (string \<times> string) list" where
  "getSearchPaths env repo =
     foldl addWorkspaceFolder (configured (workspacePath repo) ''workspace'')
       (workspaceFolders env)
     @ configured (globalPath repo) ''global''
     @ configured (defaultsPath repo) ''defaults''"

text \<open>\<^verbatim>\<open>loadBlockFromFile\<close>: whatever is thrown on the way becomes a failure result.\<close>

definition failedLoad :: "string \<Rightarrow> string \<Rightarrow> string \<Rightarrow> BlockLoadResult" where
  "failedLoad errorMessage src path =
     \<lparr>success = False, result_block = None, error = Some errorMessage, source = src,
      filePath = Some path\<rparr>"

definition loadBlockFromFile :: "Environment \<Rightarrow> string \<Rightarrow> string \<Rightarrow> BlockLoadResult" where
  "loadBlockFromFile env path src =
     (case readFile env path of
        Inl e \<Rightarrow> failedLoad e src path
      | Inr content \<Rightarrow>
          (case parseFromContent env content path of
             Inl e \<Rightarrow> failedLoad e src path
           | Inr d \<Rightarrow>
               (case create d of
                  Inl e \<Rightarrow> failedLoad (message e) src path
                | Inr b \<Rightarrow>
                    \<lparr>success = True, result_block = Some b, error = None, source = src,
                     filePath = Some path\<rparr>)))"

definition repositoryCacheTimeout :: int where
  "repositoryCacheTimeout = 5 * 60 * 1000"

definition getCachedBlock ::
  "string \<Rightarrow> int \<Rightarrow> FileSystemPromptBlockRepository
   \<Rightarrow> RepositoryCacheEntry option \<times> FileSystemPromptBlockRepository" where
  "getCachedBlock cacheKey now repo =
     (case map_of (memo repo) cacheKey of
        Some cached \<Rightarrow>
          if now - cached_timestamp cached < repositoryCacheTimeout then (Some cached, repo)
          else (None, repo\<lparr>memo := AList.delete cacheKey (memo repo)\<rparr>)
      | None \<Rightarrow> (None, repo\<lparr>memo := AList.delete cacheKey (memo repo)\<rparr>))"

text \<open>\<^verbatim>\<open>cacheBlock(cacheKey, block, source)\<close>, with its third parameter as it is named.\<close>

definition cacheBlock ::
  "string \<Rightarrow> PromptBlock \<Rightarrow> string \<Rightarrow> int \<Rightarrow> FileSystemPromptBlockRepository
   \<Rightarrow> FileSystemPromptBlockRepository" where
  "cacheBlock cacheKey b src now repo =
     repo\<lparr>memo := AList.update cacheKey
       \<lparr>cached_block = b, cached_timestamp = now, cached_source = src\<rparr> (memo repo)\<rparr>"

text \<open>
  What \<^verbatim>\<open>loadByName\<close> does with a file it found: load it, memoize a success under the
  file's path, return the result.
\<close>

definition loadAndCache ::
  "Environment \<Rightarrow> string \<Rightarrow> string \<Rightarrow> string \<Rightarrow> int \<Rightarrow> FileSystemPromptBlockRepository
   \<Rightarrow> BlockLoadResult \<times> FileSystemPromptBlockRepository" where
  "loadAndCache env cacheKey path src now repo =
     (let result = loadBlockFromFile env path src
      in (result,
          case result_block result of
            Some b \<Rightarrow> if success result then cacheBlock cacheKey b path now repo else repo
          | None \<Rightarrow> repo))"

definition notFound :: "string \<Rightarrow> BlockLoadResult" where
  "notFound n =
     \<lparr>success = False, result_block = None,
      error = Some (''Block '' @ [CHR 0x27] @ n @ [CHR 0x27] @ '' not found''),
      source = ''workspace'', filePath = None\<rparr>"

text \<open>The loop of \<^verbatim>\<open>loadByName\<close> over the search paths.\<close>

fun searchByName ::
  "Environment \<Rightarrow> string \<Rightarrow> int \<Rightarrow> (string \<times> string) list \<Rightarrow> FileSystemPromptBlockRepository
   \<Rightarrow> BlockLoadResult \<times> FileSystemPromptBlockRepository" where
  "searchByName env n now [] repo = (notFound n, repo)"
| "searchByName env n now ((searchPath, src) # rest) repo =
     (if \<not> fileExistsAtPath env (pathJoin searchPath (n @ ''.yaml'')) then
        if \<not> fileExistsAtPath env (pathJoin searchPath (n @ ''.yml'')) then
          searchByName env n now rest repo
        else loadAndCache env (''name:'' @ n) (pathJoin searchPath (n @ ''.yml'')) src now repo
      else loadAndCache env (''name:'' @ n) (pathJoin searchPath (n @ ''.yaml'')) src now repo)"

text \<open>
  \<^verbatim>\<open>loadByName\<close>; \<open>clock i\<close> is what the \<open>i\<close>-th call of \<^verbatim>\<open>Date.now()\<close> in the
  invocation returns.
\<close>

definition loadByName ::
  "Environment \<Rightarrow> (nat \<Rightarrow> int) \<Rightarrow> string \<Rightarrow> FileSystemPromptBlockRepository
   \<Rightarrow> BlockLoadResult \<times> FileSystemPromptBlockRepository" where
  "loadByName env clock n repo =
     (if \<not> matchesNamePattern n then
        (\<lparr>success = False, result_block = None, error = Some ''Invalid block name format'',
          source = ''workspace'', filePath = None\<rparr>, repo)
      else
        (case getCachedBlock (''name:'' @ n) (clock 0) repo of
           (Some cached, repo1) \<Rightarrow>
             (\<lparr>success = True, result_block = Some (cached_block cached), error = None,
               source = cached_source cached, filePath = Some (cached_source cached)\<rparr>,
              repo1)
         | (None, repo1) \<Rightarrow>
             searchByName env n (clock 1) (getSearchPaths env repo1) repo1))"

definition endsWith :: "string \<Rightarrow> string \<Rightarrow> bool" where
  "endsWith s e \<longleftrightarrow> suffix e s"

text \<open>
  \<^verbatim>\<open>loadBlocksFromDirectory\<close>: \<open>Inl\<close> when the directory cannot be listed, otherwise
  the blocks of the files that load, in the order of the listing.
\<close>

definition loadBlocksFromDirectory ::
  "Environment \<Rightarrow> string \<Rightarrow> string \<Rightarrow> string + PromptBlock list" where
  "loadBlocksFromDirectory env directoryPath src =
     (if \<not> isDirectory env directoryPath then Inr []
      else case readdir env directoryPath of
        Inl e \<Rightarrow> Inl (''Failed to read directory '' @ directoryPath @ '': '' @ e)
      | Inr files \<Rightarrow>
          Inr (concat (map
            (\<lambda>filename.
               let result = loadBlockFromFile env (pathJoin directoryPath filename) src
               in case result_block result of
                    Some b \<Rightarrow> if success result then [b] else []
                  | None \<Rightarrow> [])
            (filter (\<lambda>file. endsWith file ''.yaml'' \<or> endsWith file ''.yml'') files))))"

text \<open>
  \<^verbatim>\<open>loadAll\<close>: the search paths in reverse, each block set into the \<^verbatim>\<open>Map\<close> under
  its name; a directory that cannot be listed is passed over.
\<close>

definition setBlock :: "(string \<times> PromptBlock) list \<Rightarrow> PromptBlock \<Rightarrow> (string \<times> PromptBlock) list" where
  "setBlock m b = AList.update (name b) b m"

definition loadSource ::
  "Environment \<Rightarrow> (string \<times> PromptBlock) list \<Rightarrow> string \<times> string
   \<Rightarrow> (string \<times> PromptBlock) list" where
  "loadSource env m entry =
     (case loadBlocksFromDirectory env (fst entry) (snd entry) of
        Inl e \<Rightarrow> m
      | Inr sourceBlocks \<Rightarrow> foldl setBlock m sourceBlocks)"

definition loadAll :: "Environment \<Rightarrow> FileSystemPromptBlockRepository \<Rightarrow> PromptBlock list" where
  "loadAll env repo = map snd (foldl (loadSource env) [] (rev (getSearchPaths env repo)))"

definition clearCache :: "FileSystemPromptBlockRepository \<Rightarrow> FileSystemPromptBlockRepository" where
  "clearCache repo = repo\<lparr>memo := []\<rparr>"

definition newRepository ::
  "string option \<Rightarrow> string option \<Rightarrow> string option \<Rightarrow> FileSystemPromptBlockRepository" where
  "newRepository w g d = \<lparr>memo = [], workspacePath = w, globalPath = g, defaultsPath = d\<rparr>"

section \<open>What lookup by name means\<close>

text \<open>
  The files \<^verbatim>\<open>loadByName\<close> looks for, in the order it looks for them: for each search
  path in turn the primary \<^verbatim>\<open>.yaml\<close> file, then the alternate \<^verbatim>\<open>.yml\<close> file.
\<close>

definition candidateFiles :: "string \<Rightarrow> (string \<times> string) list \<Rightarrow> (string \<times> string) list" where
  "candidateFiles n paths =
     concat (map (\<lambda>entry. [(pathJoin (fst entry) (n @ ''.yaml''), snd entry),
                             (pathJoin (fst entry) (n @ ''.yml''), snd entry)]) paths)"

definition firstExistingFile ::
  "Environment \<Rightarrow> string \<Rightarrow> (string \<times> string) list \<Rightarrow> (string \<times> string) option" where
  "firstExistingFile env n paths =
     find (\<lambda>candidate. fileExistsAtPath env (fst candidate)) (candidateFiles n paths)"

text \<open>The blocks a source contributes to \<^verbatim>\<open>loadAll\<close>, in the order of its listing.\<close>

definition blocksOfSource :: "Environment \<Rightarrow> string \<times> string \<Rightarrow> PromptBlock list" where
  "blocksOfSource env entry =
     (case loadBlocksFromDirectory env (fst entry) (snd entry) of
        Inl e \<Rightarrow> [] | Inr sourceBlocks \<Rightarrow> sourceBlocks)"

text \<open>Every entry of the map is filed under the name of its block, once.\<close>

definition keyedByName :: "(string \<times> PromptBlock) list \<Rightarrow> bool" where
  "keyedByName m \<longleftrightarrow> distinct (map fst m) \<and> list_all (\<lambda>e. name (snd e) = fst e) m"

section \<open>What source rank means\<close>

text \<open>
  The ranked sources as the specification describes them: three optional root paths,
  workspace, global and defaults in descending priority, each extended with the fixed
  \<^verbatim>\<open>prompts\<close> sub-directory. The repository counts the \<^verbatim>\<open>.oacode/prompts\<close>
  directories of the editor's workspace folders to the workspace source as well; they
  rank after the directory of the workspace root path and before the global directory,
  each directory once, at its first occurrence.
\<close>

definition promptsDirectory :: "string option \<Rightarrow> string list" where
  "promptsDirectory root =
     (case root of None \<Rightarrow> [] | Some r \<Rightarrow> if r = [] then [] else [pathJoin r ''prompts''])"

definition workspaceFolderDirectory :: "string \<Rightarrow> string" where
  "workspaceFolderDirectory folder = pathJoin (pathJoin folder ''.oacode'') ''prompts''"

fun firstOccurrences :: "string list \<Rightarrow> string list" where
  "firstOccurrences [] = []"
| "firstOccurrences (d # ds) = d # firstOccurrences (filter (\<lambda>d'. d' \<noteq> d) ds)"

definition workspaceDirectories ::
  "Environment \<Rightarrow> FileSystemPromptBlockRepository \<Rightarrow> string list" where
  "workspaceDirectories env repo =
     firstOccurrences (promptsDirectory (workspacePath repo)
                       @ map workspaceFolderDirectory (workspaceFolders env))"

definition rankedDirectories ::
  "Environment \<Rightarrow> FileSystemPromptBlockRepository \<Rightarrow> (string \<times> string) list" where
  "rankedDirectories env repo =
     map (\<lambda>d. (d, ''workspace'')) (workspaceDirectories env repo)
     @ map (\<lambda>d. (d, ''global'')) (promptsDirectory (globalPath repo))
     @ map (\<lambda>d. (d, ''defaults'')) (promptsDirectory (defaultsPath repo))"

text \<open>
  The states of a repository whose memo cache was filled over one file system: the
  repository as constructed or after \<^verbatim>\<open>clearCache\<close> (which the file watcher calls on
  every change of a block file), and after any lookups by name over that file system.
\<close>

inductive memoizedOver :: "Environment \<Rightarrow> FileSystemPromptBlockRepository \<Rightarrow> bool"
  for env :: Environment where
  created: "memoizedOver env (newRepository w g d)"
| cleared: "memoizedOver env (clearCache repo)"
| lookedUp: "memoizedOver env repo \<Longrightarrow> memoizedOver env (snd (loadByName env clock n repo))"

section \<open>Example inputs\<close>

definition roundTripData :: PromptBlockData where
  "roundTripData =
     \<lparr>data_name = ''eda-analysis'', data_description = None, data_category = ''analysis'',
      data_tags = None, data_prompt = ''Check for missing values. '', data_variables = None,
      data_outputs = None, data_priority = Some 80, data_enabled = None\<rparr>"


definition roleBlock :: PromptBlock where
  "roleBlock =
     \<lparr>name = ''test-block'', description = [], category = ANALYSIS, tags = [],
      prompt = ''Hello {{name}}, {{role}} to {{role}}.'',
      variables =
        [\<lparr>var_name = ''name'', var_description = ''User name'', var_required = True,
          defaultValue = None\<rparr>,
         \<lparr>var_name = ''role'', var_description = ''User role'', var_required = False,
          defaultValue = Some ''analyst''\<rparr>],
      outputs = [], priority = 50, enabled = True\<rparr>"

text \<open>The block \<^verbatim>\<open>create\<close> returns for a name, a category, a prompt and a priority.\<close>

definition simpleBlock :: "string \<Rightarrow> PromptCategory \<Rightarrow> string \<Rightarrow> int \<Rightarrow> PromptBlock" where
  "simpleBlock n c p pr =
     \<lparr>name = n, description = [], category = c, tags = [], prompt = p, variables = [],
      outputs = [], priority = pr, enabled = True\<rparr>"

definition activate :: "PromptBlock \<Rightarrow> ActivePromptConfig" where
  "activate b = createActivePrompt b None None"

definition blockA :: PromptBlock where
  "blockA = simpleBlock ''blockA'' ANALYSIS ''Instructions of block A.'' 50"

definition blockB :: PromptBlock where
  "blockB = simpleBlock ''blockB'' ANALYSIS ''Instructions of block B.'' 50"

definition tieConfigs :: "ActivePromptConfig list" where
  "tieConfigs = [activate blockA, activate blockB]"

definition basicAnalysis :: PromptBlock where
  "basicAnalysis = simpleBlock ''basic-analysis'' ANALYSIS ''Basic analysis instructions.'' 60"

definition advancedAnalysis :: PromptBlock where
  "advancedAnalysis =
     simpleBlock ''advanced-analysis'' ANALYSIS ''Advanced analysis instructions.'' 90"

definition edaAnalysis :: PromptBlock where
  "edaAnalysis = simpleBlock ''eda-analysis'' ANALYSIS ''Perform comprehensive EDA analysis.'' 80"

definition chartVisualization :: PromptBlock where
  "chartVisualization =
     simpleBlock ''chart-visualization'' VISUALIZATION ''Create Chart.js visualizations.'' 90"

definition conflictConfigs :: "ActivePromptConfig list" where
  "conflictConfigs =
     [activate basicAnalysis, activate advancedAnalysis, activate chartVisualization,
      activate edaAnalysis]"

definition paddedPrompt :: string where
  "paddedPrompt = ''  You are an AI assistant. ''"

text \<open>A repository that offers the same blocks at every call.\<close>

definition constantRepository :: "PromptBlock list \<Rightarrow> unit IPromptBlockRepository" where
  "constantRepository bs =
     \<lparr>repo_loadAll = (\<lambda>r. (bs, r)),
      repo_loadByCategory = (\<lambda>c r. (filter (\<lambda>b. category b = c) bs, r)),
      repo_clearCache = (\<lambda>r. r)\<rparr>"

text \<open>
  Three calls of \<^verbatim>\<open>execute()\<close> on a new use case, at 0, 1000 and 2000 milliseconds;
  between the second and the third the caller empties the array the second returned.
\<close>

definition firstLoad :: "LoadPromptBlocksResult \<times> unit LoadPromptBlocks" where
  "firstLoad =
     LoadPromptBlocks_execute (constantRepository [edaAnalysis]) (\<lambda>i. 0)
       (newLoadPromptBlocks ())"

definition secondLoad :: "LoadPromptBlocksResult \<times> unit LoadPromptBlocks" where
  "secondLoad =
     LoadPromptBlocks_execute (constantRepository [edaAnalysis]) (\<lambda>i. 1000) (snd firstLoad)"

definition callerEmptiesArray :: "unit LoadPromptBlocks" where
  "callerEmptiesArray = mutateArray (blocks (fst secondLoad)) (\<lambda>xs. []) (snd secondLoad)"

definition thirdLoad :: "LoadPromptBlocksResult \<times> unit LoadPromptBlocks" where
  "thirdLoad =
     LoadPromptBlocks_execute (constantRepository [edaAnalysis]) (\<lambda>i. 2000)
       callerEmptiesArray"

text \<open>
  A parser for the examples: every content but \<open>broken\<close> is the prompt of a block named
  \<open>x\<close>, of priority 90 when it comes from the defaults and 10 otherwise.
\<close>

definition exampleParser :: "string \<Rightarrow> string \<Rightarrow> string + PromptBlockData" where
  "exampleParser content path =
     (if content = ''broken'' then Inl ''YAML parsing failed''
      else Inr \<lparr>data_name = ''x'', data_description = None, data_category = ''analysis'',
                data_tags = None, data_prompt = content, data_variables = None,
                data_outputs = None,
                data_priority = Some (if content = ''Default instructions.'' then 90 else 10),
                data_enabled = None\<rparr>)"

text \<open>A workspace and the defaults, each with a file \<open>x.yaml\<close>.\<close>

definition twoSources :: "string \<Rightarrow> Environment" where
  "twoSources workspaceContent =
     \<lparr>fs = map_of
        [(''/ws/.oacode/prompts'', Directory (Some [''x.yaml''])),
         (''/ws/.oacode/prompts/x.yaml'', File (Some workspaceContent)),
         (''/ext/defaults/blocks/prompts'', Directory (Some [''x.yaml''])),
         (''/ext/defaults/blocks/prompts/x.yaml'', File (Some ''Default instructions.''))],
      parseFromContent = exampleParser,
      workspaceFolders = []\<rparr>"

definition exampleRepository :: FileSystemPromptBlockRepository where
  "exampleRepository = newRepository (Some ''/ws/.oacode'') None (Some ''/ext/defaults/blocks'')"

definition workspaceX :: PromptBlock where
  "workspaceX = simpleBlock ''x'' ANALYSIS ''Workspace instructions.'' 10"

definition defaultsX :: PromptBlock where
  "defaultsX = simpleBlock ''x'' ANALYSIS ''Default instructions.'' 90"

text \<open>
  Block data with a variable named by an opening parenthesis, and the block
  \<^verbatim>\<open>create\<close> makes of it.
\<close>

definition parenData :: PromptBlockData where
  "parenData =
     \<lparr>data_name = ''paren-block'', data_description = None, data_category = ''analysis'',
      data_tags = None, data_prompt = ''Analyze {{(}}.'',
      data_variables =
        Some [\<lparr>var_name = ''('', var_description = ''Dataset'', var_required = False,
               defaultValue = None\<rparr>],
      data_outputs = None, data_priority = None, data_enabled = None\<rparr>"

definition parenBlock :: PromptBlock where
  "parenBlock =
     \<lparr>name = ''paren-block'', description = [], category = ANALYSIS, tags = [],
      prompt = ''Analyze {{(}}.'',
      variables =
        [\<lparr>var_name = ''('', var_description = ''Dataset'', var_required = False,
          defaultValue = None\<rparr>],
      outputs = [], priority = 50, enabled = True\<rparr>"

text \<open>
  Three configured roots and two workspace folders, the first of them the folder of the
  workspace root: the workspace directory holds no block file, the global directory and
  the defaults each hold a file \<open>x.yaml\<close>.
\<close>

definition threeSources :: Environment where
  "threeSources =
     \<lparr>fs = map_of
        [(''/ws/.oacode/prompts'', Directory (Some [''notes.txt''])),
         (''/ws/.oacode/prompts/notes.txt'', File (Some ''Notes.'')),
         (''/home/.oacode/prompts'', Directory (Some [''x.yaml''])),
         (''/home/.oacode/prompts/x.yaml'', File (Some ''Global instructions.'')),
         (''/ext/defaults/blocks/prompts'', Directory (Some [''x.yaml''])),
         (''/ext/defaults/blocks/prompts/x.yaml'', File (Some ''Default instructions.''))],
      parseFromContent = exampleParser,
      workspaceFolders = [''/ws'', ''/other'']\<rparr>"

definition threeRootRepository :: FileSystemPromptBlockRepository where
  "threeRootRepository =
     newRepository (Some ''/ws/.oacode'') (Some ''/home/.oacode'') (Some ''/ext/defaults/blocks'')"

definition globalX :: PromptBlock where
  "globalX = simpleBlock ''x'' ANALYSIS ''Global instructions.'' 10"

text \<open>The defaults alone hold a file \<open>x.yaml\<close>: the workspace before its file is written.\<close>

definition defaultsOnly :: Environment where
  "defaultsOnly =
     \<lparr>fs = map_of
        [(''/ext/defaults/blocks/prompts'', Directory (Some [''x.yaml''])),
         (''/ext/defaults/blocks/prompts/x.yaml'', File (Some ''Default instructions.''))],
      parseFromContent = exampleParser,
      workspaceFolders = []\<rparr>"

text \<open>
  A workspace whose \<open>x.yaml\<close> does not parse, beside an \<open>x.yml\<close> that holds a valid
  block, and the defaults with their \<open>x.yaml\<close>.
\<close>

definition brokenBesideValid :: Environment where
  "brokenBesideValid =
     \<lparr>fs = map_of
        [(''/ws/.oacode/prompts'', Directory (Some [''x.yaml'', ''x.yml''])),
         (''/ws/.oacode/prompts/x.yaml'', File (Some ''broken'')),
         (''/ws/.oacode/prompts/x.yml'', File (Some ''Workspace instructions.'')),
         (''/ext/defaults/blocks/prompts'', Directory (Some [''x.yaml''])),
         (''/ext/defaults/blocks/prompts/x.yaml'', File (Some ''Default instructions.''))],
      parseFromContent = exampleParser,
      workspaceFolders = []\<rparr>"

text \<open>
  The repository after a lookup of \<open>x\<close> over the workspace and the defaults, and the
  repository after a lookup of \<open>x\<close> while the defaults alone held the file.
\<close>

definition lookedUpRepository :: FileSystemPromptBlockRepository where
  "lookedUpRepository =
     snd (loadByName (twoSources ''Workspace instructions.'') (\<lambda>i. 0) ''x'' exampleRepository)"

definition staleRepository :: FileSystemPromptBlockRepository where
  "staleRepository = snd (loadByName defaultsOnly (\<lambda>i. 0) ''x'' exampleRepository)"

section \<open>Properties of PromptBlock\<close>


lemma isNameChar_not_ws: "isNameChar c \<Longrightarrow> \<not> isWhiteSpace c"
  by (auto simp: isNameChar_def isWhiteSpace_def Let_def)

lemma trimStart_id: "s = [] \<or> \<not> isWhiteSpace (hd s) \<Longrightarrow> trimStart s = s"
  by (cases s) (auto simp: trimStart_def)

lemma trimEnd_id: "s = [] \<or> \<not> isWhiteSpace (last s) \<Longrightarrow> trimEnd s = s"
  by (cases "rev s") (auto simp: trimEnd_def last_rev hd_rev)

lemma trim_id:
  "s = [] \<or> (\<not> isWhiteSpace (hd s) \<and> \<not> isWhiteSpace (last s)) \<Longrightarrow> trim s = s"
  by (auto simp: trim_def trimStart_id trimEnd_id)

lemma trim_name: "matchesNamePattern s \<Longrightarrow> trim s = s"
  by (rule trim_id)
     (auto simp: matchesNamePattern_def list_all_iff intro!: isNameChar_not_ws)

lemma isValidCategory_cases:
  "isValidCategory s \<longleftrightarrow>
     s = ''analysis'' \<or> s = ''visualization'' \<or> s = ''reporting'' \<or> s = ''methodology''"
  by (auto simp: isValidCategory_def getAllCategories_def)

lemma asPromptCategory_valid:
  "isValidCategory s \<Longrightarrow> \<exists>c. asPromptCategory s = Some c \<and> categoryValue c = s"
  by (auto simp: isValidCategory_cases asPromptCategory_def getAllCategories_def)

lemma trim_category: "isValidCategory s \<Longrightarrow> trim s \<noteq> []"
  by (auto simp: isValidCategory_cases trim_def trimStart_def trimEnd_def isWhiteSpace_def)

text \<open>
  C9, as amended. For every \<^verbatim>\<open>PromptBlockData\<close> with a well-formed name, a prompt that
  is not blank, a valid category, a priority in \<open>[0, 100]\<close> (when given) and variables
  with non-blank names, \<^verbatim>\<open>PromptBlock.create\<close> succeeds, and \<^verbatim>\<open>toData()\<close> returns the
  name, category, tags, variables, outputs, priority and enabled flag of the input (the
  defaults for omitted fields) and the description and prompt of the input with the
  surrounding white space trimmed.
\<close>

theorem create_toData_trimmed:
  assumes nm: "matchesNamePattern (data_name d)"
    and pr: "trim (data_prompt d) \<noteq> []"
    and cat: "isValidCategory (data_category d)"
    and prio: "case data_priority d of None \<Rightarrow> True | Some p \<Rightarrow> 0 \<le> p \<and> p \<le> 100"
    and vars: "case data_variables d of None \<Rightarrow> True
               | Some vs \<Rightarrow> list_all (\<lambda>v. trim (var_name v) \<noteq> []) vs"
  shows "\<exists>b. create d = Inr b \<and>
           toData b =
             \<lparr>data_name = data_name d,
              data_description =
                Some (case data_description d of None \<Rightarrow> [] | Some s \<Rightarrow> trim s),
              data_category = data_category d,
              data_tags = Some (case data_tags d of None \<Rightarrow> [] | Some ts \<Rightarrow> ts),
              data_prompt = trim (data_prompt d),
              data_variables = Some (case data_variables d of None \<Rightarrow> [] | Some vs \<Rightarrow> vs),
              data_outputs = Some (case data_outputs d of None \<Rightarrow> [] | Some os \<Rightarrow> os),
              data_priority = Some (case data_priority d of None \<Rightarrow> 50 | Some p \<Rightarrow> p),
              data_enabled = Some (case data_enabled d of None \<Rightarrow> True | Some e \<Rightarrow> e)\<rparr>"
proof -
  obtain c where c: "asPromptCategory (data_category d) = Some c"
    "categoryValue c = data_category d"
    using asPromptCategory_valid [OF cat] by blast
  have n1: "trim (data_name d) = data_name d" using nm by (rule trim_name)
  have n2: "data_name d \<noteq> []" using nm by (simp add: matchesNamePattern_def)
  have v: "\<not> (case data_variables d of None \<Rightarrow> False
              | Some vs \<Rightarrow> list_ex (\<lambda>v. trim (var_name v) = []) vs)"
    using vars by (auto split: option.splits simp: list_all_iff list_ex_iff)
  have p: "\<not> ((case data_priority d of None \<Rightarrow> 50 | Some p \<Rightarrow> p) < 0
             \<or> (case data_priority d of None \<Rightarrow> 50 | Some p \<Rightarrow> p) > 100)"
    using prio by (auto split: option.splits)
  show ?thesis
    using c n1 n2 pr trim_category [OF cat] nm v p
    by (simp add: create_def toData_def Let_def)
qed

text \<open>The theorem at the block data \<open>roundTripData\<close>, whose prompt ends in a space.\<close>

theorem create_toData_trimmed_witness:
  "\<exists>b. create roundTripData = Inr b \<and> data_prompt (toData b) = ''Check for missing values.''
       \<and> data_priority (toData b) = Some 80 \<and> data_tags (toData b) = Some []"
proof -
  have 1: "matchesNamePattern (data_name roundTripData)"
    by (simp add: roundTripData_def matchesNamePattern_def isNameChar_def)
  have t: "trim (data_prompt roundTripData) = ''Check for missing values.''"
    by (simp add: roundTripData_def trim_def trimStart_def trimEnd_def isWhiteSpace_def)
  have 2: "trim (data_prompt roundTripData) \<noteq> []" unfolding t by simp
  have 3: "isValidCategory (data_category roundTripData)"
    by (simp add: roundTripData_def isValidCategory_cases)
  have 4: "case data_priority roundTripData of None \<Rightarrow> True | Some p \<Rightarrow> 0 \<le> p \<and> p \<le> 100"
    by (simp add: roundTripData_def)
  have 5: "case data_variables roundTripData of None \<Rightarrow> True
           | Some vs \<Rightarrow> list_all (\<lambda>v. trim (var_name v) \<noteq> []) vs"
    by (simp add: roundTripData_def)
  from create_toData_trimmed [OF 1 2 3 4 5] obtain b where
    b: "create roundTripData = Inr b" and td: "toData b = \<lparr>data_name = data_name roundTripData,
              data_description =
                Some (case data_description roundTripData of None \<Rightarrow> [] | Some s \<Rightarrow> trim s),
              data_category = data_category roundTripData,
              data_tags = Some (case data_tags roundTripData of None \<Rightarrow> [] | Some ts \<Rightarrow> ts),
              data_prompt = trim (data_prompt roundTripData),
              data_variables = Some (case data_variables roundTripData of None \<Rightarrow> [] | Some vs \<Rightarrow> vs),
              data_outputs = Some (case data_outputs roundTripData of None \<Rightarrow> [] | Some os \<Rightarrow> os),
              data_priority = Some (case data_priority roundTripData of None \<Rightarrow> 50 | Some p \<Rightarrow> p),
              data_enabled = Some (case data_enabled roundTripData of None \<Rightarrow> True | Some e \<Rightarrow> e)\<rparr>" by blast
  have "data_prompt (toData b) = ''Check for missing values.''" unfolding td using t by simp
  moreover have "data_priority (toData b) = Some 80" unfolding td by (simp add: roundTripData_def)
  moreover have "data_tags (toData b) = Some []" unfolding td by (simp add: roundTripData_def)
  ultimately show ?thesis using b by blast
qed

text \<open>
  C9 as stated asks for the prompt to come back exactly. \<open>roundTripData\<close> meets the
  conditions of the claim, and its prompt comes back without the trailing space.
\<close>

theorem create_toData_exact_counterexample:
  "matchesNamePattern (data_name roundTripData) \<and> data_prompt roundTripData \<noteq> []
   \<and> isValidCategory (data_category roundTripData)
   \<and> data_priority roundTripData = Some 80
   \<and> map_sum message (data_prompt \<circ> toData) (create roundTripData)
       = Inr ''Check for missing values.''
   \<and> data_prompt roundTripData \<noteq> ''Check for missing values.''"
  by (simp add: roundTripData_def matchesNamePattern_def isNameChar_def create_def
      trim_def trimStart_def trimEnd_def isWhiteSpace_def asPromptCategory_def
      getAllCategories_def isValidCategory_cases toData_def)

section \<open>Properties of resolvePrompt\<close>


lemma getSubstitution_plain:
  "CHR ''$'' \<notin> set r \<Longrightarrow> getSubstitution m pre post r = r"
  by (induction m pre post r rule: getSubstitution.induct) auto

lemma joinWith_Cons: "gs \<noteq> [] \<Longrightarrow> joinWith sep (g # gs) = g @ sep @ joinWith sep gs"
  by (cases gs) auto

lemma joinWith_Cons_hd:
  "joinWith sep ((c # g) # gs) = c # joinWith sep (g # gs)"
  by (cases gs) auto

lemma sublist_Cons_cases:
  "sublist p (c # g) \<Longrightarrow> prefix p (c # g) \<or> sublist p g"
  by (metis sublist_Cons_right)

lemma replaceAllMatches_segments:
  assumes "CHR ''$'' \<notin> set v" "p \<noteq> []"
  shows "everyOccurrenceReplaced p v s (replaceAllMatches p v pre s)"
  using assms
proof (induction p v pre s rule: replaceAllMatches.induct)
  case (1 p replacement preceding)
  have "everyOccurrenceReplaced p replacement [] []"
    unfolding everyOccurrenceReplaced_def using 1
    by (intro exI [of _ "[[]]"]) simp
  then show ?case by simp
next
  case (2 p replacement preceding c cs)
  show ?case
  proof (cases "take (length p) (c # cs) = p")
    case True
    let ?rest = "drop (length p) (c # cs)"
    from 2 True have "everyOccurrenceReplaced p replacement ?rest
        (replaceAllMatches p replacement (preceding @ p) ?rest)" by simp
    then obtain segs where segs: "segs \<noteq> []" "list_all (\<lambda>g. \<not> sublist p g) segs"
        "?rest = joinWith p segs"
        "replaceAllMatches p replacement (preceding @ p) ?rest = joinWith replacement segs"
      unfolding everyOccurrenceReplaced_def by blast
    have s: "c # cs = p @ ?rest" using True by (metis append_take_drop_id)
    have "c # cs = joinWith p ([] # segs)"
      using s segs(1,3) by (simp add: joinWith_Cons)
    moreover have "replaceAllMatches p replacement preceding (c # cs)
          = joinWith replacement ([] # segs)"
      using True 2(3,4) segs(1,4) by (simp add: joinWith_Cons getSubstitution_plain)
    moreover have "list_all (\<lambda>g. \<not> sublist p g) ([] # segs)"
      using segs(2) 2(4) by simp
    ultimately show ?thesis unfolding everyOccurrenceReplaced_def by blast
  next
    case False
    from 2 False have "everyOccurrenceReplaced p replacement cs
        (replaceAllMatches p replacement (preceding @ [c]) cs)" by simp
    then obtain segs where segs: "segs \<noteq> []" "list_all (\<lambda>g. \<not> sublist p g) segs"
        "cs = joinWith p segs"
        "replaceAllMatches p replacement (preceding @ [c]) cs = joinWith replacement segs"
      unfolding everyOccurrenceReplaced_def by blast
    obtain g gs where ggs: "segs = g # gs" using segs(1) by (cases segs) auto
    have nopre: "\<not> prefix p (c # g)"
    proof
      assume "prefix p (c # g)"
      then obtain r where "c # g = p @ r" by (auto simp: prefix_def)
      moreover have "\<exists>r'. c # cs = (c # g) @ r'"
        using segs(3) ggs by (cases gs) auto
      ultimately have "\<exists>r''. c # cs = p @ r''" by (metis append.assoc)
      then show False using False by auto
    qed
    have "\<not> sublist p (c # g)"
      using nopre segs(2) ggs sublist_Cons_cases [of p c g] by auto
    then have "list_all (\<lambda>g. \<not> sublist p g) ((c # g) # gs)" using segs(2) ggs by simp
    moreover have "c # cs = joinWith p ((c # g) # gs)"
      using segs(3) ggs by (simp add: joinWith_Cons_hd)
    moreover have "replaceAllMatches p replacement preceding (c # cs)
         = joinWith replacement ((c # g) # gs)"
      using False segs(4) ggs by (simp add: joinWith_Cons_hd)
    ultimately show ?thesis unfolding everyOccurrenceReplaced_def by blast
  qed
qed

lemma substitutionValue_valueFor: "substitutionValue vals v = valueFor vals v"
  by (auto simp: substitutionValue_def valueFor_def suppliedValue_def Let_def
      split: option.splits list.splits)

lemma placeholder_nonempty: "placeholder n \<noteq> []"
  by (simp add: placeholder_def)

lemma substituteVariables_inTurn:
  assumes "list_all (\<lambda>v. literalPlaceholder (var_name v)) vs"
    and "list_all (\<lambda>v. CHR ''$'' \<notin> set (valueFor vals v)) vs"
  shows "\<exists>t. substituteVariables vals vs s = Some t \<and> substitutedInTurn vals vs s t"
  using assms
proof (induction vs arbitrary: s)
  case Nil
  then show ?case by simp
next
  case (Cons v vs)
  let ?u = "replaceAllMatches (placeholder (var_name v)) (valueFor vals v) [] s"
  from Cons obtain t where t: "substituteVariables vals vs ?u = Some t"
      "substitutedInTurn vals vs ?u t" by fastforce
  have "everyOccurrenceReplaced (placeholder (var_name v)) (valueFor vals v) s ?u"
    using Cons.prems(2) by (intro replaceAllMatches_segments placeholder_nonempty) simp
  with t Cons.prems(1) show ?case
    by (auto simp: substitutionValue_valueFor)
qed

text \<open>
  C4, as amended. For every block whose declared variable names give literal placeholders
  and every map of variable values in which the values used contain no dollar sign,
  \<^verbatim>\<open>resolvePrompt\<close> takes the declared variables in their order and replaces every
  occurrence of the variable's \<^verbatim>\<open>{{variableName}}\<close> in the text so far, not just the
  first, with the supplied value when a non-empty one is supplied, otherwise with the
  declared default, otherwise with the empty string.
\<close>

theorem resolvePrompt_substitutes:
  assumes "list_all (\<lambda>v. literalPlaceholder (var_name v)) (variables b)"
    and "list_all (\<lambda>v. CHR ''$'' \<notin> set (valueFor vals v)) (variables b)"
  shows "\<exists>t. resolvePrompt b vals = Some t \<and> substitutedInTurn vals (variables b) (prompt b) t"
proof (cases "variables b")
  case Nil
  then show ?thesis by (simp add: resolvePrompt_def hasVariables_def)
next
  case (Cons v vs)
  then have "resolvePrompt b vals = substituteVariables vals (variables b) (prompt b)"
    by (simp add: resolvePrompt_def hasVariables_def)
  then show ?thesis using substituteVariables_inTurn [OF assms] by simp
qed


text \<open>
  The theorem at \<open>roleBlock\<close>, with \<open>Alice\<close> supplied for the first variable and the
  empty string for the second, whose placeholder occurs twice.
\<close>

theorem resolvePrompt_substitutes_witness:
  "list_all (\<lambda>v. literalPlaceholder (var_name v)) (variables roleBlock)
   \<and> list_all (\<lambda>v. CHR ''$'' \<notin> set (valueFor (Some [(''name'', ''Alice''), (''role'', [])]) v))
        (variables roleBlock)
   \<and> (\<exists>t. resolvePrompt roleBlock (Some [(''name'', ''Alice''), (''role'', [])]) = Some t
          \<and> substitutedInTurn (Some [(''name'', ''Alice''), (''role'', [])])
               (variables roleBlock) (prompt roleBlock) t)"
proof -
  have 1: "list_all (\<lambda>v. literalPlaceholder (var_name v)) (variables roleBlock)"
    by (simp add: roleBlock_def literalPlaceholder_def regexSyntaxChars_def
        isBracedQuantifierBody_def isDigit_def objectPrototypeKeys_def)
  have 2: "list_all (\<lambda>v. CHR ''$'' \<notin> set (valueFor (Some [(''name'', ''Alice''), (''role'', [])]) v))
        (variables roleBlock)"
    by (simp add: roleBlock_def valueFor_def suppliedValue_def)
  show ?thesis using 1 2 resolvePrompt_substitutes [OF 1 2] by simp
qed

text \<open>
  C4 as stated lets a supplied empty string take precedence over the declared default.
  At \<open>roleBlock\<close> the empty string is supplied for \<open>role\<close>, whose default is
  \<open>analyst\<close>, and the default is what the result holds.
\<close>

theorem resolvePrompt_empty_value_counterexample:
  "map_of [(''name'', ''Alice''), (''role'', [])] ''role'' = Some []
   \<and> map defaultValue (variables roleBlock) = [None, Some ''analyst'']
   \<and> resolvePrompt roleBlock (Some [(''name'', ''Alice''), (''role'', [])])
       = Some ''Hello Alice, analyst to analyst.''
   \<and> resolvePrompt roleBlock (Some [(''name'', ''Alice''), (''role'', [])])
       \<noteq> Some ''Hello Alice,  to .''"
  by (simp add: roleBlock_def resolvePrompt_def hasVariables_def literalPlaceholder_def
      regexSyntaxChars_def isBracedQuantifierBody_def isDigit_def objectPrototypeKeys_def
      placeholder_def substitutionValue_def)

section \<open>Properties of EnhanceSystemPrompt\<close>


subsection \<open>The sort\<close>

lemma length_insertSorted: "length (insertSorted cmp x ys) = Suc (length ys)"
  by (induction ys) auto

lemma mset_insertSorted: "mset (insertSorted cmp x ys) = add_mset x (mset ys)"
  by (induction ys) auto

lemma length_stableSort: "length (stableSort cmp xs) = length xs"
  by (induction xs) (auto simp: stableSort_def length_insertSorted)

lemma mset_stableSort: "mset (stableSort cmp xs) = mset xs"
  by (induction xs) (auto simp: stableSort_def mset_insertSorted)

lemma set_stableSort: "set (stableSort cmp xs) = set xs"
  by (metis mset_stableSort set_mset_mset)

lemma stableSort_Nil_iff: "stableSort cmp xs = [] \<longleftrightarrow> xs = []"
  by (metis length_stableSort length_0_conv)

lemma stableSort_single: "stableSort cmp [x] = [x]"
  by (simp add: stableSort_def)

lemma comparePriority_key:
  "config_priority x \<noteq> None \<Longrightarrow> config_priority y \<noteq> None \<Longrightarrow>
     comparePriority x y \<le> 0 \<longleftrightarrow> priorityKey x \<le> priorityKey y"
  by (auto simp: comparePriority_def priorityKey_def)

lemma insertSorted_insort_key:
  "config_priority x \<noteq> None \<Longrightarrow> prioritiesDefined ys \<Longrightarrow>
     insertSorted comparePriority x ys = insort_key priorityKey x ys"
  by (induction ys) (auto simp: prioritiesDefined_def comparePriority_key)

lemma stableSort_sort_key:
  "prioritiesDefined xs \<Longrightarrow> stableSort comparePriority xs = sort_key priorityKey xs"
proof (induction xs)
  case Nil
  then show ?case by (simp add: stableSort_def)
next
  case (Cons x xs)
  then have d: "config_priority x \<noteq> None" "prioritiesDefined xs"
    by (simp_all add: prioritiesDefined_def)
  have "prioritiesDefined (sort_key priorityKey xs)"
    using d(2) by (simp add: prioritiesDefined_def list_all_iff)
  then show ?case
    using Cons.IH [OF d(2)] d(1) by (simp add: stableSort_def insertSorted_insort_key)
qed

subsection \<open>The grouping\<close>

lemma groupByCategory_distinct:
  "distinct (map fst m) \<Longrightarrow> distinct (map fst (groupByCategory ps m))"
  by (induction ps arbitrary: m) (auto split: option.splits simp: distinct_update)

lemma groupByCategory_map_of:
  "map_of (groupByCategory ps m) c =
     (if c \<in> categoryOf ` set ps \<or> map_of m c \<noteq> None
      then Some ((case map_of m c of None \<Rightarrow> [] | Some g \<Rightarrow> g) @ filter (\<lambda>p. categoryOf p = c) ps)
      else None)"
proof (induction ps arbitrary: m)
  case Nil
  then show ?case by (auto split: option.splits)
next
  case (Cons p ps)
  show ?case
    by (auto simp: Cons.IH update_conv categoryOf_def split: option.splits)
qed

lemma groupByCategory_mset:
  "mset (concat (map snd (groupByCategory ps m))) = mset (concat (map snd m)) + mset ps"
proof (induction ps arbitrary: m)
  case Nil
  then show ?case by simp
next
  case (Cons p ps)
  have new: "\<And>c v. map_of m c = None \<Longrightarrow>
      mset (concat (map snd (AList.update c v m))) = mset (concat (map snd m)) + mset v" for m :: "(PromptCategory \<times> ActivePromptConfig list) list"
  proof -
    fix c v show "map_of m c = None \<Longrightarrow>
      mset (concat (map snd (AList.update c v m))) = mset (concat (map snd m)) + mset v"
      by (induction m) (auto split: if_splits)
  qed
  have old: "\<And>c g. map_of m c = Some g \<Longrightarrow>
      mset (concat (map snd (AList.update c (g @ [p]) m))) = add_mset p (mset (concat (map snd m)))" for m :: "(PromptCategory \<times> ActivePromptConfig list) list"
  proof -
    fix c g show "map_of m c = Some g \<Longrightarrow>
      mset (concat (map snd (AList.update c (g @ [p]) m))) = add_mset p (mset (concat (map snd m)))"
      by (induction m) (auto split: if_splits)
  qed
  show ?case
    by (auto simp: Cons.IH new old split: option.splits)
qed

subsection \<open>The resolution loop\<close>

lemma resolveCategory_step:
  assumes "g \<noteq> []"
  shows "resolveCategory (r, cs) (c, g) =
           (r @ [selectedOf g], cs @ map (conflictRecord c (selectedOf g)) (conflictedOf g))"
proof (cases "length g = 1")
  case True
  then obtain x where "g = [x]" by (cases g) auto
  then show ?thesis
    by (simp add: resolveCategory_def selectedOf_def conflictedOf_def stableSort_single)
next
  case False
  obtain s rest where "stableSort comparePriority g = s # rest"
    using assms stableSort_Nil_iff [of comparePriority g]
    by (cases "stableSort comparePriority g") auto
  with False show ?thesis
    by (simp add: resolveCategory_def selectedOf_def conflictedOf_def)
qed

lemma foldl_resolveCategory:
  "list_all (\<lambda>e. snd e \<noteq> []) G \<Longrightarrow>
   foldl resolveCategory (r, cs) G =
     (r @ map (\<lambda>e. selectedOf (snd e)) G,
      cs @ concat (map (\<lambda>e. map (conflictRecord (fst e) (selectedOf (snd e)))
                              (conflictedOf (snd e))) G))"
proof (induction G arbitrary: r cs)
  case Nil
  then show ?case by simp
next
  case (Cons e G)
  obtain c g where e: "e = (c, g)" by (cases e)
  with Cons.prems have g: "g \<noteq> []" and rest: "list_all (\<lambda>e. snd e \<noteq> []) G" by auto
  show ?case
    by (simp add: e resolveCategory_step [OF g] Cons.IH [OF rest])
qed

lemma groups_distinct: "distinct (map fst (groupByCategory ps []))"
  by (rule groupByCategory_distinct) simp

lemma groups_map_of:
  "map_of (groupByCategory ps []) c =
     (if c \<in> categoryOf ` set ps then Some (filter (\<lambda>p. categoryOf p = c) ps) else None)"
  by (simp add: groupByCategory_map_of)

lemma groups_entry:
  assumes "(c, g) \<in> set (groupByCategory ps [])"
  shows "c \<in> categoryOf ` set ps \<and> g = filter (\<lambda>p. categoryOf p = c) ps"
proof -
  have "map_of (groupByCategory ps []) c = Some g"
    using assms groups_distinct by (rule map_of_is_SomeI [rotated])
  then show ?thesis by (auto simp: groups_map_of split: if_splits)
qed

lemma groups_nonempty: "list_all (\<lambda>e. snd e \<noteq> []) (groupByCategory ps [])"
proof -
  have "snd e \<noteq> []" if "e \<in> set (groupByCategory ps [])" for e
  proof -
    obtain c g where e: "e = (c, g)" by (cases e)
    from groups_entry [of c g ps] that e
    have "c \<in> categoryOf ` set ps" "g = filter (\<lambda>p. categoryOf p = c) ps" by auto
    then show ?thesis using e by (auto simp: filter_empty_conv)
  qed
  then show ?thesis by (simp add: list_all_iff)
qed

lemma groups_keys: "fst ` set (groupByCategory ps []) = categoryOf ` set ps"
proof -
  have "fst ` set (groupByCategory ps []) = dom (map_of (groupByCategory ps []))"
    by (simp add: dom_map_of_conv_image_fst)
  also have "\<dots> = categoryOf ` set ps"
    by (auto simp: groups_map_of dom_def)
  finally show ?thesis .
qed

lemma length_groups: "length (groupByCategory ps []) = card (categoryOf ` set ps)"
proof -
  have "length (groupByCategory ps []) = length (map fst (groupByCategory ps []))" by simp
  also have "\<dots> = card (set (map fst (groupByCategory ps [])))"
    using groups_distinct by (metis distinct_card)
  also have "\<dots> = card (categoryOf ` set ps)" by (simp add: groups_keys)
  finally show ?thesis .
qed

lemma resolveConflicts_eq:
  "resolveConflicts ps =
     (map (\<lambda>e. selectedOf (snd e)) (groupByCategory ps []),
      concat (map (\<lambda>e. map (conflictRecord (fst e) (selectedOf (snd e)))
                         (conflictedOf (snd e))) (groupByCategory ps [])))"
  using foldl_resolveCategory [OF groups_nonempty, of "[]" "[]" ps]
  by (simp add: resolveConflicts_def)

lemma selectedOf_mem: "g \<noteq> [] \<Longrightarrow> selectedOf g \<in> set g"
  by (metis selectedOf_def hd_in_set set_stableSort stableSort_Nil_iff)

lemma selected_conflicted: "g \<noteq> [] \<Longrightarrow> selectedOf g # conflictedOf g = stableSort comparePriority g"
  by (simp add: selectedOf_def conflictedOf_def stableSort_Nil_iff)

lemma conflictedOf_subset: "set (conflictedOf g) \<subseteq> set g"
  by (metis conflictedOf_def list.set_sel(2) set_stableSort subsetI tl_Nil)

subsection \<open>The survivor of a category\<close>

lemma find_filter_hd: "find P xs = (case filter P xs of [] \<Rightarrow> None | x # _ \<Rightarrow> Some x)"
  by (induction xs) auto

lemma find_in_filter: "find P (filter Q xs) = find (\<lambda>x. Q x \<and> P x) xs"
  by (induction xs) auto

lemma hd_sort_key_first_min:
  assumes "xs \<noteq> []"
  shows "find (\<lambda>x. \<forall>y\<in>set xs. f x \<le> f y) xs = Some (hd (sort_key f xs))"
proof -
  let ?s = "sort_key f xs"
  obtain h t where s: "?s = h # t"
    using assms by (cases ?s) (auto dest: arg_cong [where f = length])
  have "sorted (map f ?s)" by simp
  then have min: "\<forall>y\<in>set xs. f h \<le> f y"
    using s by (metis list.set_intros(1) list.simps(9) order_refl set_ConsD set_sort sorted_simps(2) imageI list.set_map)
  have eq: "(\<forall>y\<in>set xs. f x \<le> f y) \<longleftrightarrow> f x = f h" if "x \<in> set xs" for x
  proof
    assume "\<forall>y\<in>set xs. f x \<le> f y"
    moreover have "h \<in> set xs" using s by (metis list.set_intros(1) set_sort)
    ultimately show "f x = f h" using min that by (simp add: order_antisym)
  next
    assume "f x = f h" then show "\<forall>y\<in>set xs. f x \<le> f y" using min by simp
  qed
  have "filter (\<lambda>x. \<forall>y\<in>set xs. f x \<le> f y) xs = filter (\<lambda>x. f x = f h) xs"
    using eq by (intro filter_cong) auto
  also have "\<dots> = filter (\<lambda>x. f x = f h) ?s"
    by (simp add: sort_key_stable)
  also have "\<dots> = h # filter (\<lambda>x. f x = f h) t" using s by simp
  finally show ?thesis using s by (simp add: find_filter_hd)
qed

lemma prioritiesDefined_filter: "prioritiesDefined ps \<Longrightarrow> prioritiesDefined (filter P ps)"
  by (simp add: prioritiesDefined_def list_all_iff)

lemma atMost_key:
  "config_priority p \<noteq> None \<Longrightarrow> config_priority q \<noteq> None \<Longrightarrow>
     atMost q p \<longleftrightarrow> priorityKey p \<le> priorityKey q"
  by (auto simp: atMost_def priorityKey_def)

lemma firstTop_selectedOf:
  assumes d: "prioritiesDefined ps" and c: "c \<in> categoryOf ` set ps"
  shows "firstTop ps c = Some (selectedOf (filter (\<lambda>p. categoryOf p = c) ps))"
proof -
  let ?g = "filter (\<lambda>p. categoryOf p = c) ps"
  have ne: "?g \<noteq> []" using c by (auto simp: filter_empty_conv)
  have dg: "prioritiesDefined ?g" using d by (rule prioritiesDefined_filter)
  have top: "topOfCategory ps p \<longleftrightarrow> (\<forall>q\<in>set ?g. priorityKey p \<le> priorityKey q)"
    if "p \<in> set ps" "categoryOf p = c" for p
  proof -
    have dp: "config_priority p \<noteq> None" using d that by (simp add: prioritiesDefined_def list_all_iff)
    have "atMost q p \<longleftrightarrow> priorityKey p \<le> priorityKey q" if "q \<in> set ps" for q
      using d that dp by (intro atMost_key) (simp_all add: prioritiesDefined_def list_all_iff)
    then show ?thesis using that by (auto simp: topOfCategory_def list_all_iff)
  qed
  have "firstTop ps c = find (\<lambda>p. \<forall>q\<in>set ?g. priorityKey p \<le> priorityKey q) ?g"
    unfolding firstTop_def find_in_filter
    by (rule find_cong) (auto simp: top)
  also have "\<dots> = Some (hd (sort_key priorityKey ?g))"
    using ne by (rule hd_sort_key_first_min)
  also have "hd (sort_key priorityKey ?g) = selectedOf ?g"
    by (simp add: selectedOf_def stableSort_sort_key [OF dg])
  finally show ?thesis .
qed

lemma firstTop_None: "c \<notin> categoryOf ` set ps \<Longrightarrow> firstTop ps c = None"
  by (auto simp: firstTop_def find_None_iff)

lemma filter_key_distinct:
  "distinct (map fst G) \<Longrightarrow>
     filter (\<lambda>e. fst e = c) G = (case map_of G c of None \<Rightarrow> [] | Some g \<Rightarrow> [(c, g)])"
proof (induction G)
  case Nil
  then show ?case by simp
next
  case (Cons e G)
  then have "fst e = c \<Longrightarrow> map_of G c = None"
    by (metis distinct.simps(2) list.simps(9) map_of_eq_None_iff set_map)
  with Cons show ?case by (cases e) (auto split: option.splits)
qed

lemma categoryOf_selected:
  assumes "e \<in> set (groupByCategory ps [])"
  shows "categoryOf (selectedOf (snd e)) = fst e"
proof -
  obtain c g where e: "e = (c, g)" by (cases e)
  from groups_entry [of c g ps] assms e
  have cg: "c \<in> categoryOf ` set ps" "g = filter (\<lambda>p. categoryOf p = c) ps" by auto
  then have "g \<noteq> []" by (auto simp: filter_empty_conv)
  from selectedOf_mem [OF this] cg(2) show ?thesis using e by auto
qed

lemma resolved_of_category:
  "filter (\<lambda>p. categoryOf p = c) (fst (resolveConflicts ps)) =
     (if c \<in> categoryOf ` set ps then [selectedOf (filter (\<lambda>p. categoryOf p = c) ps)] else [])"
proof -
  let ?G = "groupByCategory ps []"
  have "filter (\<lambda>p. categoryOf p = c) (map (\<lambda>e. selectedOf (snd e)) ?G)
        = map (\<lambda>e. selectedOf (snd e)) (filter (\<lambda>e. fst e = c) ?G)"
    unfolding filter_map comp_def
    by (rule arg_cong [where f = "map _"], rule filter_cong) (auto simp: categoryOf_selected)
  also have "filter (\<lambda>e. fst e = c) ?G = (case map_of ?G c of None \<Rightarrow> [] | Some g \<Rightarrow> [(c, g)])"
    using groups_distinct by (rule filter_key_distinct)
  finally show ?thesis by (simp add: resolveConflicts_eq groups_map_of)
qed

text \<open>
  C8. Where every effective priority is defined, the survivor of a category is the first
  config, in the order of the input, among those of the category with the highest
  effective priority; every category of the input has one. So of two configs of one
  category with equal priority, the first-encountered one survives.
\<close>

theorem resolveConflicts_first_top:
  assumes "prioritiesDefined active"
  shows "filter (\<lambda>p. categoryOf p = c) (fst (resolveConflicts active)) =
           (case firstTop active c of None \<Rightarrow> [] | Some w \<Rightarrow> [w])
         \<and> (c \<in> categoryOf ` set active \<longrightarrow> firstTop active c \<noteq> None)"
proof (cases "c \<in> categoryOf ` set active")
  case True
  then show ?thesis
    by (simp add: resolved_of_category firstTop_selectedOf [OF assms True])
next
  case False
  then show ?thesis by (simp add: resolved_of_category firstTop_None)
qed

subsection \<open>Concatenation\<close>

lemma substituteVariables_Some:
  "list_all (\<lambda>v. literalPlaceholder (var_name v)) vs \<Longrightarrow>
     \<exists>t. substituteVariables vals vs s = Some t"
  by (induction vs arbitrary: s) auto

lemma resolvePrompt_Some:
  "list_all (\<lambda>v. literalPlaceholder (var_name v)) (variables b) \<Longrightarrow>
     \<exists>t. resolvePrompt b vals = Some t"
  by (simp add: resolvePrompt_def substituteVariables_Some)

lemma appendPrompts_bodies:
  "literalVariables ps \<Longrightarrow>
     \<exists>bodies. list_all2 (\<lambda>p body. resolvePrompt (block p) (config_variables p) = Some body)
                 ps bodies
       \<and> appendPrompts e ps
           = Some (e @ concat (map (\<lambda>body. [CHR 0x0A, CHR 0x0A] @ trim body) bodies))"
proof (induction ps arbitrary: e)
  case Nil
  then show ?case by simp
next
  case (Cons p ps)
  then have lp: "list_all (\<lambda>v. literalPlaceholder (var_name v)) (variables (block p))"
    and lps: "literalVariables ps" by (simp_all add: literalVariables_def)
  obtain body where body: "resolvePrompt (block p) (config_variables p) = Some body"
    using resolvePrompt_Some [OF lp] by blast
  obtain bodies where bodies:
    "list_all2 (\<lambda>p body. resolvePrompt (block p) (config_variables p) = Some body) ps bodies"
    "appendPrompts (e @ [CHR 0x0A, CHR 0x0A] @ trim body) ps
       = Some ((e @ [CHR 0x0A, CHR 0x0A] @ trim body)
               @ concat (map (\<lambda>body. [CHR 0x0A, CHR 0x0A] @ trim body) bodies))"
    using Cons.IH [OF lps] by blast
  show ?case
    using body bodies by (intro exI [of _ "body # bodies"]) simp
qed

lemma literalVariables_subset:
  "literalVariables ps \<Longrightarrow> set qs \<subseteq> set ps \<Longrightarrow> literalVariables qs"
  by (auto simp: literalVariables_def list_all_iff)

lemma prioritiesDefined_subset:
  "prioritiesDefined ps \<Longrightarrow> set qs \<subseteq> set ps \<Longrightarrow> prioritiesDefined qs"
  by (auto simp: prioritiesDefined_def list_all_iff)

lemma resolved_subset: "set (fst (resolveConflicts ps)) \<subseteq> set ps"
proof
  fix w assume "w \<in> set (fst (resolveConflicts ps))"
  then obtain e where e: "e \<in> set (groupByCategory ps [])" "w = selectedOf (snd e)"
    by (auto simp: resolveConflicts_eq)
  obtain c g where cg: "e = (c, g)" by (cases e)
  from groups_entry [of c g ps] e cg
  have g: "c \<in> categoryOf ` set ps" "g = filter (\<lambda>p. categoryOf p = c) ps" by auto
  then have "g \<noteq> []" by (auto simp: filter_empty_conv)
  from selectedOf_mem [OF this] g(2) e(2) cg show "w \<in> set ps" by auto
qed

lemma set_sortByPriority: "set (sortByPriority ps) = set ps"
  by (simp add: sortByPriority_def set_stableSort)

lemma concatenatePrompts_bodies:
  assumes "literalVariables ps"
  shows "\<exists>bodies. list_all2 (\<lambda>p body. resolvePrompt (block p) (config_variables p) = Some body)
                 ps bodies
       \<and> concatenatePrompts original ps
           = Some (if ps = [] then original
                   else trim original
                        @ concat (map (\<lambda>body. [CHR 0x0A, CHR 0x0A] @ trim body) bodies))"
proof (cases "ps = []")
  case True
  then show ?thesis by (simp add: concatenatePrompts_def)
next
  case False
  with appendPrompts_bodies [OF assms, of "trim original"] show ?thesis
    by (simp add: concatenatePrompts_def)
qed

lemma execute_eq:
  assumes "literalVariables active"
  shows "\<exists>r bodies. execute original active = Some r
     \<and> originalPrompt r = original
     \<and> appliedPrompts r = sortByPriority (fst (resolveConflicts active))
     \<and> conflictResolution r = snd (resolveConflicts active)
     \<and> list_all2 (\<lambda>p body. resolvePrompt (block p) (config_variables p) = Some body)
          (appliedPrompts r) bodies
     \<and> enhancedPrompt r =
          (if appliedPrompts r = [] then original
           else trim original
                @ concat (map (\<lambda>body. [CHR 0x0A, CHR 0x0A] @ trim body) bodies))"
proof -
  let ?sorted = "sortByPriority (fst (resolveConflicts active))"
  have "set ?sorted \<subseteq> set active"
    unfolding set_sortByPriority by (rule resolved_subset)
  with assms have "literalVariables ?sorted"
    by (rule literalVariables_subset)
  from concatenatePrompts_bodies [OF this, of original]
  obtain bodies where bodies:
    "list_all2 (\<lambda>p body. resolvePrompt (block p) (config_variables p) = Some body)
       ?sorted bodies"
    "concatenatePrompts original ?sorted
       = Some (if ?sorted = [] then original
               else trim original
                    @ concat (map (\<lambda>body. [CHR 0x0A, CHR 0x0A] @ trim body) bodies))"
    by blast
  let ?enhanced = "if ?sorted = [] then original
               else trim original
                    @ concat (map (\<lambda>body. [CHR 0x0A, CHR 0x0A] @ trim body) bodies)"
  let ?r = "\<lparr>originalPrompt = original, enhancedPrompt = ?enhanced,
             appliedPrompts = ?sorted, conflictResolution = snd (resolveConflicts active),
             totalLength = int (length ?enhanced),
             addedLength = int (length ?enhanced) - int (length original)\<rparr>"
  have "execute original active = Some ?r"
    using bodies(2) by (simp add: execute_def Let_def case_prod_beta)
  then show ?thesis
    using bodies(1) by (intro exI [of _ ?r] exI [of _ bodies]) simp
qed

subsection \<open>Counting\<close>

lemma length_resolved: "length (fst (resolveConflicts ps)) = card (categoryOf ` set ps)"
  by (simp add: resolveConflicts_eq length_groups)

lemma mset_selected_conflicted:
  "list_all (\<lambda>e. snd e \<noteq> []) G \<Longrightarrow>
   mset (map (\<lambda>e. selectedOf (snd e)) G) + mset (concat (map (\<lambda>e. conflictedOf (snd e)) G))
     = mset (concat (map snd G))"
proof (induction G)
  case Nil
  then show ?case by simp
next
  case (Cons e G)
  then have ne: "snd e \<noteq> []" and rest: "list_all (\<lambda>e. snd e \<noteq> []) G" by auto
  have "add_mset (selectedOf (snd e)) (mset (conflictedOf (snd e))) = mset (snd e)"
    using selected_conflicted [OF ne] mset_stableSort [of comparePriority "snd e"]
    by (metis mset.simps(2))
  with Cons.IH [OF rest] show ?case by (simp add: ac_simps)
qed

lemma resolved_losers_mset:
  "mset (fst (resolveConflicts ps))
     + mset (concat (map (\<lambda>e. conflictedOf (snd e)) (groupByCategory ps []))) = mset ps"
  using mset_selected_conflicted [OF groups_nonempty, of ps]
  by (simp add: resolveConflicts_eq groupByCategory_mset)

lemma length_conflicts:
  "length (snd (resolveConflicts ps))
     = length (concat (map (\<lambda>e. conflictedOf (snd e)) (groupByCategory ps [])))"
  by (simp add: resolveConflicts_eq length_concat comp_def)

lemma count_conflicts:
  "length (fst (resolveConflicts ps)) + length (snd (resolveConflicts ps)) = length ps"
proof -
  have "size (mset (fst (resolveConflicts ps))
     + mset (concat (map (\<lambda>e. conflictedOf (snd e)) (groupByCategory ps [])))) = size (mset ps)"
    by (simp only: resolved_losers_mset)
  then show ?thesis by (simp add: length_conflicts)
qed

lemma list_all2_concat_map:
  "(\<And>e. e \<in> set G \<Longrightarrow> list_all2 P (f e) (h e)) \<Longrightarrow>
     list_all2 P (concat (map f G)) (concat (map h G))"
  by (induction G) (auto intro: list_all2_appendI)

lemma conflicts_record_losses:
  "list_all2 (recordsLoss (fst (resolveConflicts ps)))
     (concat (map (\<lambda>e. conflictedOf (snd e)) (groupByCategory ps [])))
     (snd (resolveConflicts ps))"
proof -
  let ?G = "groupByCategory ps []"
  have "list_all2 (recordsLoss (fst (resolveConflicts ps))) (conflictedOf (snd e))
          (map (conflictRecord (fst e) (selectedOf (snd e))) (conflictedOf (snd e)))"
    if e: "e \<in> set ?G" for e
  proof -
    obtain c g where cg: "e = (c, g)" by (cases e)
    from groups_entry [of c g ps] e cg
    have g: "g = filter (\<lambda>p. categoryOf p = c) ps" by auto
    have sel: "selectedOf g \<in> set (fst (resolveConflicts ps))"
      using e cg by (force simp: resolveConflicts_eq)
    have cat: "categoryOf (selectedOf g) = c"
      using categoryOf_selected [OF e] cg by simp
    have "recordsLoss (fst (resolveConflicts ps)) l (conflictRecord c (selectedOf g) l)"
      if "l \<in> set (conflictedOf g)" for l
    proof -
      have "l \<in> set g" using that conflictedOf_subset by blast
      then have "categoryOf l = c" using g by simp
      then show ?thesis
        using sel cat by (auto simp: recordsLoss_def conflictRecord_def list_ex_iff)
    qed
    then show ?thesis
      by (simp add: cg list_all2_map2 list_all2_same)
  qed
  then have "list_all2 (recordsLoss (fst (resolveConflicts ps)))
     (concat (map (\<lambda>e. conflictedOf (snd e)) ?G))
     (concat (map (\<lambda>e. map (conflictRecord (fst e) (selectedOf (snd e)))
                         (conflictedOf (snd e))) ?G))"
    by (rule list_all2_concat_map)
  then show ?thesis by (simp add: resolveConflicts_eq)
qed

lemma recordsLoss_set:
  "set ws = set ws' \<Longrightarrow> recordsLoss ws l cr \<Longrightarrow> recordsLoss ws' l cr"
  by (simp add: recordsLoss_def list_ex_iff)

lemma resolved_categories_distinct: "distinct (map categoryOf (fst (resolveConflicts ps)))"
proof -
  have "map categoryOf (fst (resolveConflicts ps)) = map fst (groupByCategory ps [])"
    by (simp add: resolveConflicts_eq categoryOf_selected)
  then show ?thesis by (simp add: groups_distinct)
qed

lemma resolved_top:
  assumes "prioritiesDefined ps" "w \<in> set (fst (resolveConflicts ps))"
  shows "w \<in> set ps \<and> topOfCategory ps w"
proof -
  have c: "categoryOf w \<in> categoryOf ` set ps"
    using assms(2) resolved_subset by blast
  have "w \<in> set (filter (\<lambda>p. categoryOf p = categoryOf w) (fst (resolveConflicts ps)))"
    using assms(2) by simp
  then have "w = selectedOf (filter (\<lambda>p. categoryOf p = categoryOf w) ps)"
    using c by (simp add: resolved_of_category)
  then have "firstTop ps (categoryOf w) = Some w"
    using firstTop_selectedOf [OF assms(1) c] by simp
  then show ?thesis
    by (auto simp: firstTop_def find_Some_iff in_set_conv_nth)
qed

lemma mset_sortByPriority: "mset (sortByPriority ps) = mset ps"
  by (simp add: sortByPriority_def mset_stableSort)

text \<open>
  Within the variable names whose placeholder is a literal pattern: for N active configs
  with defined effective priorities whose blocks span K categories, \<^verbatim>\<open>execute\<close> returns
  K applied prompts, one per category and each of the highest effective priority in its
  category, and N - K conflict records, one for each losing config, naming the loser as
  the previous block and the survivor of its category as the selected block.
\<close>

theorem execute_counts:
  assumes "prioritiesDefined active" and "literalVariables active"
  shows "\<exists>r. execute original active = Some r
     \<and> length (appliedPrompts r) = card (categoryOf ` set active)
     \<and> length (appliedPrompts r) + length (conflictResolution r) = length active
     \<and> distinct (map categoryOf (appliedPrompts r))
     \<and> list_all (\<lambda>w. w \<in> set active \<and> topOfCategory active w) (appliedPrompts r)
     \<and> (\<exists>losers. mset (appliedPrompts r) + mset losers = mset active
           \<and> list_all2 (recordsLoss (appliedPrompts r)) losers (conflictResolution r))"
proof -
  let ?resolved = "fst (resolveConflicts active)"
  obtain r where r: "execute original active = Some r"
    "appliedPrompts r = sortByPriority ?resolved"
    "conflictResolution r = snd (resolveConflicts active)"
    using execute_eq [OF assms(2), of original] by blast
  have m: "mset (appliedPrompts r) = mset ?resolved"
    by (simp add: r(2) mset_sortByPriority)
  then have s: "set (appliedPrompts r) = set ?resolved" by (metis set_mset_mset)
  have l: "length (appliedPrompts r) = length ?resolved"
    using m by (metis size_mset)
  have 1: "length (appliedPrompts r) = card (categoryOf ` set active)"
    by (simp add: l length_resolved)
  have 2: "length (appliedPrompts r) + length (conflictResolution r) = length active"
    by (simp add: l r(3) count_conflicts)
  have "mset (map categoryOf (appliedPrompts r)) = mset (map categoryOf ?resolved)"
    using m by (metis mset_map)
  then have 3: "distinct (map categoryOf (appliedPrompts r))"
    using resolved_categories_distinct [of active] by (metis mset_eq_imp_distinct_iff)
  have 4: "list_all (\<lambda>w. w \<in> set active \<and> topOfCategory active w) (appliedPrompts r)"
    unfolding list_all_iff s using resolved_top [OF assms(1)] by blast
  let ?losers = "concat (map (\<lambda>e. conflictedOf (snd e)) (groupByCategory active []))"
  have 5: "mset (appliedPrompts r) + mset ?losers = mset active"
    by (simp add: m resolved_losers_mset)
  have "list_all2 (recordsLoss ?resolved) ?losers (conflictResolution r)"
    by (simp add: r(3) conflicts_record_losses)
  then have 6: "list_all2 (recordsLoss (appliedPrompts r)) ?losers (conflictResolution r)"
    by (rule list_all2_mono) (rule recordsLoss_set [OF s [symmetric]])
  from r(1) 1 2 3 4 5 6 show ?thesis by blast
qed

text \<open>
  C3, as amended. Where every effective priority is defined (and the variables are within
  the modelled names), \<^verbatim>\<open>execute\<close> returns, for a non-empty set of survivors, the original
  prompt with its leading and trailing white space trimmed, followed by the substituted
  body of each survivor, trimmed, in descending order of effective priority, each after
  exactly one blank line; with no survivor it returns the original prompt unchanged.
\<close>

theorem execute_concatenation:
  assumes "prioritiesDefined active" and "literalVariables active"
  shows "\<exists>r bodies. execute original active = Some r
     \<and> mset (appliedPrompts r) = mset (fst (resolveConflicts active))
     \<and> sorted_wrt (\<lambda>a b. atMost b a) (appliedPrompts r)
     \<and> list_all2 (\<lambda>p body. resolvePrompt (block p) (config_variables p) = Some body)
          (appliedPrompts r) bodies
     \<and> enhancedPrompt r =
          (if appliedPrompts r = [] then original
           else trim original
                @ concat (map (\<lambda>body. [CHR 0x0A, CHR 0x0A] @ trim body) bodies))"
proof -
  let ?resolved = "fst (resolveConflicts active)"
  obtain r bodies where r: "execute original active = Some r"
    "appliedPrompts r = sortByPriority ?resolved"
    "list_all2 (\<lambda>p body. resolvePrompt (block p) (config_variables p) = Some body)
          (appliedPrompts r) bodies"
    "enhancedPrompt r =
          (if appliedPrompts r = [] then original
           else trim original
                @ concat (map (\<lambda>body. [CHR 0x0A, CHR 0x0A] @ trim body) bodies))"
    using execute_eq [OF assms(2), of original] by blast
  have d: "prioritiesDefined ?resolved"
    using assms(1) resolved_subset by (rule prioritiesDefined_subset)
  have m: "mset (appliedPrompts r) = mset ?resolved"
    by (simp add: r(2) mset_sortByPriority)
  have "appliedPrompts r = sort_key priorityKey ?resolved"
    by (simp add: r(2) sortByPriority_def stableSort_sort_key [OF d])
  then have "sorted_wrt (\<lambda>a b. priorityKey a \<le> priorityKey b) (appliedPrompts r)"
    using sorted_sort_key [of priorityKey ?resolved] by (simp add: sorted_map)
  moreover have "atMost b a" if "a \<in> set (appliedPrompts r)" "b \<in> set (appliedPrompts r)"
    "priorityKey a \<le> priorityKey b" for a b
  proof -
    have "set (appliedPrompts r) = set ?resolved" using m by (metis set_mset_mset)
    with that d have "config_priority a \<noteq> None" "config_priority b \<noteq> None"
      by (auto simp: prioritiesDefined_def list_all_iff)
    then show ?thesis using that(3) by (simp add: atMost_key)
  qed
  ultimately have "sorted_wrt (\<lambda>a b. atMost b a) (appliedPrompts r)"
    by (rule sorted_wrt_mono_rel [rotated]) auto
  with r m show ?thesis by blast
qed


text \<open>C8 at two configs of the category \<open>ANALYSIS\<close>, both of priority 50.\<close>

theorem resolveConflicts_first_top_witness:
  "prioritiesDefined tieConfigs \<and> ANALYSIS \<in> categoryOf ` set tieConfigs
   \<and> firstTop tieConfigs ANALYSIS = Some (activate blockA)
   \<and> filter (\<lambda>p. categoryOf p = ANALYSIS) (fst (resolveConflicts tieConfigs))
       = [activate blockA]"
proof -
  have d: "prioritiesDefined tieConfigs"
    by (simp add: tieConfigs_def activate_def createActivePrompt_def prioritiesDefined_def)
  have c: "ANALYSIS \<in> categoryOf ` set tieConfigs"
    by (simp add: tieConfigs_def activate_def createActivePrompt_def blockA_def
        simpleBlock_def categoryOf_def)
  have f: "firstTop tieConfigs ANALYSIS = Some (activate blockA)"
    by (simp add: tieConfigs_def activate_def createActivePrompt_def blockA_def blockB_def
        simpleBlock_def firstTop_def topOfCategory_def atMost_def categoryOf_def)
  show ?thesis
    using d c f resolveConflicts_first_top [OF d, of ANALYSIS] by simp
qed

text \<open>
  The counts at four configs, three of them of one category: two survivors and two
  conflict records.
\<close>

theorem execute_counts_witness:
  "prioritiesDefined conflictConfigs \<and> literalVariables conflictConfigs
   \<and> (\<exists>r. execute paddedPrompt conflictConfigs = Some r
          \<and> length (appliedPrompts r) = 2 \<and> length (conflictResolution r) = 2
          \<and> list_all (\<lambda>w. w \<in> set conflictConfigs \<and> topOfCategory conflictConfigs w)
               (appliedPrompts r))"
proof -
  have d: "prioritiesDefined conflictConfigs"
    by (simp add: conflictConfigs_def activate_def createActivePrompt_def
        prioritiesDefined_def)
  have l: "literalVariables conflictConfigs"
    by (simp add: conflictConfigs_def activate_def createActivePrompt_def
        literalVariables_def basicAnalysis_def advancedAnalysis_def edaAnalysis_def
        chartVisualization_def simpleBlock_def)
  have k: "card (categoryOf ` set conflictConfigs) = 2"
    by (simp add: conflictConfigs_def activate_def createActivePrompt_def categoryOf_def
        basicAnalysis_def advancedAnalysis_def edaAnalysis_def chartVisualization_def
        simpleBlock_def card_insert_if)
  have n: "length conflictConfigs = 4" by (simp add: conflictConfigs_def)
  from execute_counts [OF d l, of paddedPrompt] obtain r where
    "execute paddedPrompt conflictConfigs = Some r"
    "length (appliedPrompts r) = card (categoryOf ` set conflictConfigs)"
    "length (appliedPrompts r) + length (conflictResolution r) = length conflictConfigs"
    "list_all (\<lambda>w. w \<in> set conflictConfigs \<and> topOfCategory conflictConfigs w)
       (appliedPrompts r)"
    by blast
  then show ?thesis using d l k n by (intro conjI exI [of _ r]) simp_all
qed

text \<open>C3, as amended, at the same four configs and a prompt with white space around it.\<close>

theorem execute_concatenation_witness:
  "prioritiesDefined conflictConfigs \<and> literalVariables conflictConfigs
   \<and> (\<exists>r bodies. execute paddedPrompt conflictConfigs = Some r
     \<and> mset (appliedPrompts r) = mset (fst (resolveConflicts conflictConfigs))
     \<and> sorted_wrt (\<lambda>a b. atMost b a) (appliedPrompts r)
     \<and> list_all2 (\<lambda>p body. resolvePrompt (block p) (config_variables p) = Some body)
          (appliedPrompts r) bodies
     \<and> enhancedPrompt r =
          (if appliedPrompts r = [] then paddedPrompt
           else trim paddedPrompt
                @ concat (map (\<lambda>body. [CHR 0x0A, CHR 0x0A] @ trim body) bodies)))"
proof -
  have d: "prioritiesDefined conflictConfigs"
    by (simp add: conflictConfigs_def activate_def createActivePrompt_def
        prioritiesDefined_def)
  have l: "literalVariables conflictConfigs"
    by (simp add: conflictConfigs_def activate_def createActivePrompt_def
        literalVariables_def basicAnalysis_def advancedAnalysis_def edaAnalysis_def
        chartVisualization_def simpleBlock_def)
  show ?thesis using d l execute_concatenation [OF d l, of paddedPrompt] by simp
qed

text \<open>
  C3 as stated keeps the leading white space of the original prompt. \<open>paddedPrompt\<close>
  begins with two spaces, which trimming at the end alone would keep; the enhanced prompt
  begins without them.
\<close>

theorem execute_leading_space_counterexample:
  "trimEnd paddedPrompt = ''  You are an AI assistant.''
   \<and> resolvePrompt edaAnalysis None = Some ''Perform comprehensive EDA analysis.''
   \<and> map_option enhancedPrompt (execute paddedPrompt [activate edaAnalysis])
       = Some (''You are an AI assistant.'' @ [CHR 0x0A, CHR 0x0A]
               @ ''Perform comprehensive EDA analysis.'')
   \<and> map_option enhancedPrompt (execute paddedPrompt [activate edaAnalysis])
       \<noteq> Some (trimEnd paddedPrompt @ [CHR 0x0A, CHR 0x0A]
               @ ''Perform comprehensive EDA analysis.'')"
  by (simp add: paddedPrompt_def activate_def createActivePrompt_def edaAnalysis_def
      simpleBlock_def execute_def resolveConflicts_def resolveCategory_def stableSort_def
      sortByPriority_def concatenatePrompts_def resolvePrompt_def hasVariables_def
      trim_def trimStart_def trimEnd_def isWhiteSpace_def)

text \<open>
  C1 (the code does not do what the claim says). \<^verbatim>\<open>create\<close> accepts a variable named
  by an opening parenthesis. \<^verbatim>\<open>resolvePrompt\<close> puts the name into the pattern as it
  is: \<^verbatim>\<open>{{(}}\<close> opens a group that is never closed, \<^verbatim>\<open>new RegExp\<close> rejects it with a
  \<^verbatim>\<open>SyntaxError\<close>, and nothing between there and the caller of \<^verbatim>\<open>execute\<close> catches
  it. For one active config of defined priority, in one category, \<^verbatim>\<open>execute\<close> has no
  result where the claim has one applied prompt and no conflict record.
\<close>

theorem execute_unescaped_variable_name:
  "create parenData = Inr parenBlock
   \<and> prioritiesDefined [activate parenBlock]
   \<and> card (categoryOf ` set [activate parenBlock]) = 1
   \<and> \<not> literalPlaceholder ''(''
   \<and> resolvePrompt parenBlock None = None
   \<and> execute ''You are an AI assistant.'' [activate parenBlock] = None"
  by (simp add: parenData_def parenBlock_def create_def trim_def trimStart_def trimEnd_def
      isWhiteSpace_def matchesNamePattern_def isNameChar_def asPromptCategory_def
      getAllCategories_def prioritiesDefined_def activate_def createActivePrompt_def
      categoryOf_def literalPlaceholder_def regexSyntaxChars_def resolvePrompt_def
      hasVariables_def execute_def resolveConflicts_def resolveCategory_def
      sortByPriority_def stableSort_def concatenatePrompts_def)

section \<open>Properties of LoadPromptBlocks\<close>




lemma deref_alloc_same: "deref (snd (alloc xs h)) (fst (alloc xs h)) = xs"
  by (simp add: deref_def alloc_def)











text \<open>
  C10 (the code does not do what the claim says). \<^verbatim>\<open>cacheBlocks\<close> stores a copy, but a
  call answered from the cache returns the cached array itself. After a first load the
  second call is answered from the cache; the caller empties the array it was given; the
  third call, answered from the cache, returns the emptied array.
\<close>

theorem cached_array_mutable:
  "\<not> fromCache (fst firstLoad) \<and> fromCache (fst secondLoad)
   \<and> deref (store (snd secondLoad)) (blocks (fst secondLoad)) = [edaAnalysis]
   \<and> fromCache (fst thirdLoad)
   \<and> deref (store (snd thirdLoad)) (blocks (fst thirdLoad)) = []
   \<and> loadedCount (fst thirdLoad) = 0"
  by (simp add: thirdLoad_def callerEmptiesArray_def secondLoad_def firstLoad_def
      LoadPromptBlocks_execute_def loadThroughCache_def completeLoad_def
      getCachedBlocks_def newLoadPromptBlocks_def constantRepository_def Let_def alloc_def cacheBlocks_def
      deref_def isEnabled_def edaAnalysis_def simpleBlock_def mutateArray_def cacheTimeout_def)

section \<open>Properties of the repository\<close>

lemma getSearchPaths_memo [simp]: "getSearchPaths env (repo\<lparr>memo := m\<rparr>) = getSearchPaths env repo"
  by (simp add: getSearchPaths_def)

lemma searchByName_first_existing:
  "fst (searchByName env n now paths repo) =
     (case firstExistingFile env n paths of
        None \<Rightarrow> notFound n
      | Some c \<Rightarrow> loadBlockFromFile env (fst c) (snd c))"
proof (induction paths)
  case Nil
  then show ?case by (simp add: firstExistingFile_def candidateFiles_def)
next
  case (Cons a paths)
  obtain searchPath src where a: "a = (searchPath, src)" by (cases a)
  from Cons show ?case
    by (simp add: a firstExistingFile_def candidateFiles_def loadAndCache_def Let_def)
qed

lemma getCachedBlock_miss:
  "fst (getCachedBlock key now repo) = None \<Longrightarrow>
     getCachedBlock key now repo = (None, repo\<lparr>memo := AList.delete key (memo repo)\<rparr>)"
  by (auto simp: getCachedBlock_def split: option.splits if_splits)

text \<open>
  C5, as amended. For every valid block name without a live memo entry, \<^verbatim>\<open>loadByName\<close>
  goes through the ranked sources in priority order, in each directory the primary
  \<^verbatim>\<open>.yaml\<close> file before the alternate \<^verbatim>\<open>.yml\<close> file, and returns the result of loading
  the first file that exists, be that result a success or a failure; when no such file
  exists the result is "not found".
\<close>

theorem loadByName_first_existing:
  assumes "matchesNamePattern n"
    and "fst (getCachedBlock (''name:'' @ n) (clock 0) repo) = None"
  shows "fst (loadByName env clock n repo) =
     (case firstExistingFile env n (getSearchPaths env repo) of
        None \<Rightarrow> notFound n
      | Some c \<Rightarrow> loadBlockFromFile env (fst c) (snd c))"
  using assms(1) getCachedBlock_miss [OF assms(2)]
  by (simp add: loadByName_def searchByName_first_existing)


lemma list_all_update:
  "list_all P al \<Longrightarrow> P (k, v) \<Longrightarrow> list_all P (AList.update k v al)"
  by (induction al) auto

lemma keyedByName_setBlock: "keyedByName m \<Longrightarrow> keyedByName (setBlock m b)"
  by (simp add: keyedByName_def setBlock_def distinct_update list_all_update)

lemma keyedByName_foldl_setBlock: "keyedByName m \<Longrightarrow> keyedByName (foldl setBlock m bs)"
  by (induction bs arbitrary: m) (simp_all add: keyedByName_setBlock)

lemma loadSource_blocksOfSource:
  "loadSource env m e = foldl setBlock m (blocksOfSource env e)"
  by (simp add: loadSource_def blocksOfSource_def split: sum.splits)

lemma foldl_loadSource:
  "foldl (loadSource env) m es = foldl setBlock m (concat (map (blocksOfSource env) es))"
  by (induction es arbitrary: m) (simp_all add: loadSource_blocksOfSource)

lemma loadAll_overwrites:
  "loadAll env repo =
     map snd (foldl setBlock [] (concat (map (blocksOfSource env) (rev (getSearchPaths env repo)))))"
  by (simp add: loadAll_def foldl_loadSource)

lemma map_of_setBlock: "map_of (setBlock m b) x = (if name b = x then Some b else map_of m x)"
  by (simp add: setBlock_def update_conv)

lemma map_of_foldl_setBlock:
  "map_of (foldl setBlock m bs) x =
     (case filter (\<lambda>b. name b = x) bs of [] \<Rightarrow> map_of m x | b # r \<Rightarrow> Some (last (b # r)))"
proof (induction bs rule: rev_induct)
  case Nil
  then show ?case by simp
next
  case (snoc b bs)
  then show ?case by (auto simp: map_of_setBlock split: list.splits)
qed

lemma named_in_keyed:
  assumes "keyedByName m"
  shows "filter (\<lambda>b. name b = x) (map snd m) = (case map_of m x of None \<Rightarrow> [] | Some b \<Rightarrow> [b])"
proof -
  have "filter (\<lambda>b. name b = x) (map snd m) = map snd (filter (\<lambda>e. fst e = x) m)"
    unfolding filter_map comp_def
    using assms
    by (intro arg_cong [where f = "map snd"] filter_cong) (auto simp: keyedByName_def list_all_iff)
  also have "filter (\<lambda>e. fst e = x) m = (case map_of m x of None \<Rightarrow> [] | Some g \<Rightarrow> [(x, g)])"
    using assms by (intro filter_key_distinct) (simp add: keyedByName_def)
  finally show ?thesis by (simp split: option.splits)
qed

lemma last_named_unique:
  assumes "bw \<in> set bs" "name bw = x" "list_all (\<lambda>b. name b = x \<longrightarrow> b = bw) bs"
  shows "last (filter (\<lambda>b. name b = x) bs) = bw"
proof -
  let ?named = "filter (\<lambda>b. name b = x) bs"
  have "?named \<noteq> []" using assms(1,2) by (auto simp: filter_empty_conv)
  then have "last ?named \<in> set ?named" by (rule last_in_set)
  then show ?thesis using assms(3) by (auto simp: list_all_iff)
qed

lemma last_named_member:
  assumes "bw \<in> set bs" "name bw = x"
  shows "last (filter (\<lambda>b. name b = x) bs) \<in> set bs"
proof -
  let ?named = "filter (\<lambda>b. name b = x) bs"
  have "?named \<noteq> []" using assms by (auto simp: filter_empty_conv)
  then have "last ?named \<in> set ?named" by (rule last_in_set)
  then show ?thesis by simp
qed

lemma suffix_yaml: "endsWith (x @ ''.yaml'') ''.yaml''" "endsWith (x @ ''.yml'') ''.yml''"
  by (simp_all add: endsWith_def suffix_def)

lemma listed_block:
  assumes "readdir env dir = Inr files" "f \<in> set files"
    and "endsWith f ''.yaml'' \<or> endsWith f ''.yml''"
    and "success (loadBlockFromFile env (pathJoin dir f) src)"
    and "result_block (loadBlockFromFile env (pathJoin dir f) src) = Some b"
  shows "b \<in> set (blocksOfSource env (dir, src))"
proof -
  have "isDirectory env dir"
    using assms(1) by (auto simp: readdir_def isDirectory_def split: option.splits fs_node.splits)
  then show ?thesis
    using assms
    by (auto simp: blocksOfSource_def loadBlocksFromDirectory_def Let_def intro!: bexI [of _ f])
qed

lemma loaded_exists:
  "success (loadBlockFromFile env p src) \<Longrightarrow> fileExistsAtPath env p"
  by (auto simp: loadBlockFromFile_def readFile_def fileExistsAtPath_def failedLoad_def
      split: option.splits fs_node.splits sum.splits)

lemma loadBlockFromFile_source: "source (loadBlockFromFile env p src) = src"
  by (auto simp: loadBlockFromFile_def failedLoad_def split: sum.splits)


lemma searchByName_state:
  "snd (searchByName env n now paths repo) =
     (case firstExistingFile env n paths of
        None \<Rightarrow> repo
      | Some c \<Rightarrow> snd (loadAndCache env (''name:'' @ n) (fst c) (snd c) now repo))"
proof (induction paths)
  case Nil
  then show ?case by (simp add: firstExistingFile_def candidateFiles_def)
next
  case (Cons a paths)
  obtain searchPath src where a: "a = (searchPath, src)" by (cases a)
  from Cons show ?case
    by (simp add: a firstExistingFile_def candidateFiles_def)
qed

lemma loadByName_miss_found:
  assumes nm: "matchesNamePattern n"
    and miss: "fst (getCachedBlock (''name:'' @ n) (c 0) r) = None"
    and first: "firstExistingFile env n (getSearchPaths env r) = Some (path, src)"
    and loads: "success (loadBlockFromFile env path src)"
      "result_block (loadBlockFromFile env path src) = Some b"
  shows "loadByName env c n r =
           (loadBlockFromFile env path src,
            cacheBlock (''name:'' @ n) b path (c 1)
              (r\<lparr>memo := AList.delete (''name:'' @ n) (memo r)\<rparr>))"
proof -
  have "fst (loadByName env c n r) = loadBlockFromFile env path src"
    using nm getCachedBlock_miss [OF miss] first
    by (simp add: loadByName_def searchByName_first_existing)
  moreover have "snd (loadByName env c n r)
     = cacheBlock (''name:'' @ n) b path (c 1)
         (r\<lparr>memo := AList.delete (''name:'' @ n) (memo r)\<rparr>)"
    using nm getCachedBlock_miss [OF miss] first loads
    by (simp add: loadByName_def searchByName_state loadAndCache_def Let_def)
  ultimately show ?thesis by (simp add: prod_eq_iff)
qed

lemma loadByName_hit:
  assumes "matchesNamePattern n"
    and "fst (getCachedBlock (''name:'' @ n) (c 0) r) = Some e"
  shows "result_block (fst (loadByName env c n r)) = Some (cached_block e)"
proof -
  have "getCachedBlock (''name:'' @ n) (c 0) r = (Some e, r)"
    using assms(2) by (auto simp: getCachedBlock_def split: option.splits if_splits)
  then show ?thesis using assms(1) by (simp add: loadByName_def)
qed

lemma loadByName_again:
  assumes nm: "matchesNamePattern n"
    and miss: "fst (getCachedBlock (''name:'' @ n) (c 0) r) = None"
    and first: "firstExistingFile env n (getSearchPaths env r) = Some (path, src)"
    and loads: "success (loadBlockFromFile env path src)"
      "result_block (loadBlockFromFile env path src) = Some b"
  shows "result_block (fst (loadByName env c' n (snd (loadByName env c n r)))) = Some b"
proof -
  let ?key = "''name:'' @ n"
  let ?r' = "cacheBlock ?key b path (c 1) (r\<lparr>memo := AList.delete ?key (memo r)\<rparr>)"
  have s: "snd (loadByName env c n r) = ?r'"
    using loadByName_miss_found [where c = c, OF nm miss first loads] by simp
  have p: "getSearchPaths env ?r' = getSearchPaths env r"
    by (simp add: getSearchPaths_def cacheBlock_def)
  show ?thesis
  proof (cases "fst (getCachedBlock ?key (c' 0) ?r')")
    case None
    from loadByName_miss_found [where c = c', OF nm None first [folded p] loads] loads(2)
    show ?thesis unfolding s by simp
  next
    case (Some e)
    then have "map_of (memo ?r') ?key = Some e"
      by (auto simp: getCachedBlock_def split: option.splits if_splits)
    then have "cached_block e = b" by (auto simp: cacheBlock_def update_conv)
    with loadByName_hit [where c = c', OF nm Some, of env] show ?thesis unfolding s by simp
  qed
qed

lemma firstOccurrences_filter:
  "firstOccurrences (filter P ds) = filter P (firstOccurrences ds)"
proof (induction ds rule: firstOccurrences.induct)
  case 1
  then show ?case by simp
next
  case (2 d ds)
  show ?case
  proof (cases "P d")
    case True
    have "filter (\<lambda>d'. d' \<noteq> d) (filter P ds) = filter P (filter (\<lambda>d'. d' \<noteq> d) ds)"
      by (simp add: conj_commute)
    then show ?thesis using True 2 by simp
  next
    case False
    have "filter P ds = filter P (filter (\<lambda>d'. d' \<noteq> d) ds)"
      using False by (auto intro: filter_cong)
    then show ?thesis using False 2 by simp
  qed
qed

lemma foldl_addWorkspaceFolder_ranked:
  "foldl addWorkspaceFolder ps folders =
     ps @ map (\<lambda>d. (d, ''workspace''))
            (filter (\<lambda>d. d \<notin> fst ` set ps)
               (firstOccurrences (map workspaceFolderDirectory folders)))"
proof (induction folders arbitrary: ps)
  case Nil
  then show ?case by simp
next
  case (Cons f folders)
  let ?d = "workspaceFolderDirectory f"
  let ?ds = "firstOccurrences (map workspaceFolderDirectory folders)"
  have ex: "list_ex (\<lambda>p. fst p = ?d) qs \<longleftrightarrow> ?d \<in> fst ` set qs" for qs
    unfolding list_ex_iff by force
  show ?case
  proof (cases "?d \<in> fst ` set ps")
    case True
    then have a: "addWorkspaceFolder ps f = ps"
      using ex [of ps] by (simp add: addWorkspaceFolder_def workspaceFolderDirectory_def)
    have "filter (\<lambda>d. d \<notin> fst ` set ps) (filter (\<lambda>d'. d' \<noteq> ?d) ?ds)
            = filter (\<lambda>d. d \<notin> fst ` set ps) ?ds"
      using True by (auto intro: filter_cong)
    then show ?thesis using True Cons [of ps] by (simp add: a firstOccurrences_filter)
  next
    case False
    then have a: "addWorkspaceFolder ps f = ps @ [(?d, ''workspace'')]"
      using ex [of ps] by (simp add: addWorkspaceFolder_def workspaceFolderDirectory_def)
    have "filter (\<lambda>d. d \<notin> fst ` set (ps @ [(?d, ''workspace'')])) ?ds
            = filter (\<lambda>d. d \<notin> fst ` set ps) (filter (\<lambda>d'. d' \<noteq> ?d) ?ds)"
      by (auto intro: filter_cong)
    then show ?thesis
      using False Cons [of "ps @ [(?d, ''workspace'')]"] by (simp add: a firstOccurrences_filter)
  qed
qed

lemma getSearchPaths_ranked: "getSearchPaths env repo = rankedDirectories env repo"
proof (cases "promptsDirectory (workspacePath repo)")
  case Nil
  then have c: "configured (workspacePath repo) ''workspace'' = []"
    by (auto simp: configured_def promptsDirectory_def split: option.splits if_splits)
  show ?thesis
    by (simp add: getSearchPaths_def rankedDirectories_def workspaceDirectories_def Nil c
        foldl_addWorkspaceFolder_ranked)
       (simp add: configured_def promptsDirectory_def split: option.splits)
next
  case (Cons d r)
  then have c: "configured (workspacePath repo) ''workspace'' = [(d, ''workspace'')]" and r: "r = []"
    by (auto simp: configured_def promptsDirectory_def split: option.splits if_splits)
  have "filter (\<lambda>d'. d' \<notin> fst ` set [(d, ''workspace'')]) 
           (firstOccurrences (map workspaceFolderDirectory (workspaceFolders env)))
      = filter (\<lambda>d'. d' \<noteq> d) (firstOccurrences (map workspaceFolderDirectory (workspaceFolders env)))"
    by (auto intro: filter_cong)
  then show ?thesis
    by (simp add: getSearchPaths_def rankedDirectories_def workspaceDirectories_def Cons r c
        foldl_addWorkspaceFolder_ranked firstOccurrences_filter)
       (simp add: configured_def promptsDirectory_def split: option.splits)
qed

lemma last_option:
  "(case xs of [] \<Rightarrow> None | b # r \<Rightarrow> Some (last (b # r)))
     = (if xs = [] then None else Some (last xs))"
  by (cases xs) simp_all

lemma last_named_ranked:
  "(case filter P (concat (map f (rev es))) of [] \<Rightarrow> None | b # r \<Rightarrow> Some (last (b # r)))
     = (case find (\<lambda>e. list_ex P (f e)) es of
          None \<Rightarrow> None | Some e \<Rightarrow> Some (last (filter P (f e))))"
proof (induction es)
  case Nil
  then show ?case by simp
next
  case (Cons e es)
  show ?case
  proof (cases "list_ex P (f e)")
    case True
    then have "filter P (f e) \<noteq> []" by (auto simp: list_ex_iff filter_empty_conv)
    then show ?thesis using True by (simp add: last_option)
  next
    case False
    then have "filter P (f e) = []" by (auto simp: list_ex_iff filter_empty_conv)
    then show ?thesis using False Cons by simp
  qed
qed

lemma loadAll_named:
  "filter (\<lambda>b. name b = n) (loadAll env repo) =
     (case find (\<lambda>e. list_ex (\<lambda>b. name b = n) (blocksOfSource env e))
             (rankedDirectories env repo) of
        None \<Rightarrow> []
      | Some e \<Rightarrow> [last (filter (\<lambda>b. name b = n) (blocksOfSource env e))])"
proof -
  let ?m = "foldl setBlock []
      (concat (map (blocksOfSource env) (rev (rankedDirectories env repo))))"
  have l: "loadAll env repo = map snd ?m"
    by (simp add: loadAll_overwrites getSearchPaths_ranked)
  have k: "keyedByName ?m"
    by (intro keyedByName_foldl_setBlock) (simp add: keyedByName_def)
  have "map_of ?m n =
     (case find (\<lambda>e. list_ex (\<lambda>b. name b = n) (blocksOfSource env e))
             (rankedDirectories env repo) of
        None \<Rightarrow> None
      | Some e \<Rightarrow> Some (last (filter (\<lambda>b. name b = n) (blocksOfSource env e))))"
    unfolding last_named_ranked [symmetric]
    by (simp add: map_of_foldl_setBlock split: list.splits)
  then show ?thesis by (simp add: l named_in_keyed [OF k] split: option.splits)
qed

lemma find_highest:
  assumes "list_all (\<lambda>e. \<not> P e) higher" "P e"
  shows "find P (higher @ e # lower) = Some e"
  using assms by (induction higher) simp_all

lemma firstExistingFile_ranked:
  assumes absent: "list_all (\<lambda>e. \<not> fileExistsAtPath env (pathJoin (fst e) (x @ ''.yaml''))
                        \<and> \<not> fileExistsAtPath env (pathJoin (fst e) (x @ ''.yml''))) higher"
    and ext: "ext = ''.yaml'' \<or>
              ext = ''.yml'' \<and> \<not> fileExistsAtPath env (pathJoin dir (x @ ''.yaml''))"
    and ex: "fileExistsAtPath env (pathJoin dir (x @ ext))"
  shows "firstExistingFile env x (higher @ (dir, src) # lower)
           = Some (pathJoin dir (x @ ext), src)"
  using absent
proof (induction higher)
  case Nil
  then show ?case using ext ex by (auto simp: firstExistingFile_def candidateFiles_def)
next
  case (Cons h higher)
  then show ?case by (simp add: firstExistingFile_def candidateFiles_def)
qed

lemma getSearchPaths_loadByName:
  "getSearchPaths env' (snd (loadByName env c m repo)) = getSearchPaths env' repo"
  by (auto simp: loadByName_def getCachedBlock_def searchByName_state loadAndCache_def Let_def
      cacheBlock_def split: option.splits if_splits prod.splits)

lemma loadByName_memo:
  assumes "map_of (memo (snd (loadByName env c m repo))) k = Some e"
  shows "map_of (memo repo) k = Some e
     \<or> k = ''name:'' @ m
       \<and> (\<exists>p. firstExistingFile env m (getSearchPaths env repo) = Some p
              \<and> success (loadBlockFromFile env (fst p) (snd p))
              \<and> result_block (loadBlockFromFile env (fst p) (snd p)) = Some (cached_block e))"
proof (cases "matchesNamePattern m")
  case False
  then show ?thesis using assms by (simp add: loadByName_def)
next
  case nm: True
  show ?thesis
  proof (cases "fst (getCachedBlock (''name:'' @ m) (c 0) repo)")
    case (Some hit)
    then have "getCachedBlock (''name:'' @ m) (c 0) repo = (Some hit, repo)"
      by (auto simp: getCachedBlock_def split: option.splits if_splits)
    then show ?thesis using assms nm by (simp add: loadByName_def)
  next
    case None
    let ?r = "repo\<lparr>memo := AList.delete (''name:'' @ m) (memo repo)\<rparr>"
    have "snd (loadByName env c m repo)
            = snd (searchByName env m (c 1) (getSearchPaths env repo) ?r)"
      using nm getCachedBlock_miss [OF None] by (simp add: loadByName_def)
    then have s: "snd (loadByName env c m repo) =
       (case firstExistingFile env m (getSearchPaths env repo) of
          None \<Rightarrow> ?r
        | Some p \<Rightarrow> snd (loadAndCache env (''name:'' @ m) (fst p) (snd p) (c 1) ?r))"
      unfolding searchByName_state .
    show ?thesis
    proof (cases "k = ''name:'' @ m")
      case False
      then show ?thesis using assms unfolding s
        by (auto simp: loadAndCache_def Let_def cacheBlock_def delete_conv update_conv
            split: option.splits if_splits)
    next
      case True
      then show ?thesis using assms unfolding s
        by (auto simp: loadAndCache_def Let_def cacheBlock_def delete_conv update_conv
            split: option.splits if_splits)
    qed
  qed
qed

lemma memoizedOver_agrees:
  assumes "memoizedOver env repo"
    and "map_of (memo repo) (''name:'' @ n) = Some e"
  shows "\<exists>p. firstExistingFile env n (getSearchPaths env repo) = Some p
              \<and> success (loadBlockFromFile env (fst p) (snd p))
              \<and> result_block (loadBlockFromFile env (fst p) (snd p)) = Some (cached_block e)"
  using assms
proof (induction arbitrary: n e rule: memoizedOver.induct)
  case (created w g d)
  then show ?case by (simp add: newRepository_def)
next
  case (cleared repo)
  then show ?case by (simp add: clearCache_def)
next
  case (lookedUp repo clock m)
  have paths: "getSearchPaths env (snd (loadByName env clock m repo)) = getSearchPaths env repo"
    by (rule getSearchPaths_loadByName)
  from loadByName_memo [OF lookedUp.prems]
  consider (old) "map_of (memo repo) (''name:'' @ n) = Some e"
    | (new) "n = m"
        "\<exists>p. firstExistingFile env m (getSearchPaths env repo) = Some p
              \<and> success (loadBlockFromFile env (fst p) (snd p))
              \<and> result_block (loadBlockFromFile env (fst p) (snd p)) = Some (cached_block e)"
    by auto
  then show ?case
  proof cases
    case old
    then show ?thesis unfolding paths by (rule lookedUp.IH)
  next
    case new
    then show ?thesis unfolding paths by simp
  qed
qed

lemma loadByName_current:
  assumes nm: "matchesNamePattern x"
    and current: "fst (getCachedBlock (''name:'' @ x) (c 0) repo) = None \<or> memoizedOver env repo"
    and first: "firstExistingFile env x (getSearchPaths env repo) = Some (path, src)"
    and loads: "success (loadBlockFromFile env path src)"
      "result_block (loadBlockFromFile env path src) = Some b"
  shows "success (fst (loadByName env c x repo))
     \<and> result_block (fst (loadByName env c x repo)) = Some b
     \<and> (fst (getCachedBlock (''name:'' @ x) (c 0) repo) = None
          \<longrightarrow> source (fst (loadByName env c x repo)) = src)"
proof (cases "fst (getCachedBlock (''name:'' @ x) (c 0) repo)")
  case None
  from loadByName_miss_found [where c = c, OF nm None first loads] loads
  show ?thesis by (simp add: loadBlockFromFile_source)
next
  case (Some hit)
  then have g: "getCachedBlock (''name:'' @ x) (c 0) repo = (Some hit, repo)"
    and m: "map_of (memo repo) (''name:'' @ x) = Some hit"
    by (auto simp: getCachedBlock_def split: option.splits if_splits)
  from current Some have "memoizedOver env repo" by simp
  from memoizedOver_agrees [OF this m] first loads have "cached_block hit = b" by auto
  then show ?thesis using nm g Some by (simp add: loadByName_def)
qed

lemma rank_decides_lookup:
  assumes nm: "matchesNamePattern x"
    and current: "fst (getCachedBlock (''name:'' @ x) (clock 0) repo) = None
                  \<or> memoizedOver env repo"
    and rank: "rankedDirectories env repo = higher @ (dir, src) # lower"
    and absent: "list_all (\<lambda>e. \<not> fileExistsAtPath env (pathJoin (fst e) (x @ ''.yaml''))
                        \<and> \<not> fileExistsAtPath env (pathJoin (fst e) (x @ ''.yml''))) higher"
    and ext: "ext = ''.yaml'' \<or>
              ext = ''.yml'' \<and> \<not> fileExistsAtPath env (pathJoin dir (x @ ''.yaml''))"
    and loads: "success (loadBlockFromFile env (pathJoin dir (x @ ext)) src)"
      "result_block (loadBlockFromFile env (pathJoin dir (x @ ext)) src) = Some bw"
  shows "success (fst (loadByName env clock x repo))
     \<and> result_block (fst (loadByName env clock x repo)) = Some bw
     \<and> (fst (getCachedBlock (''name:'' @ x) (clock 0) repo) = None
          \<longrightarrow> source (fst (loadByName env clock x repo)) = src)
     \<and> result_block (fst (loadByName env clock' x (snd (loadByName env clock x repo))))
         = Some bw"
proof -
  let ?file = "pathJoin dir (x @ ext)"
  have ex: "fileExistsAtPath env ?file" using loads(1) by (rule loaded_exists)
  have first: "firstExistingFile env x (getSearchPaths env repo) = Some (?file, src)"
    unfolding getSearchPaths_ranked rank using absent ext ex by (rule firstExistingFile_ranked)
  have 1: "success (fst (loadByName env clock x repo))
     \<and> result_block (fst (loadByName env clock x repo)) = Some bw
     \<and> (fst (getCachedBlock (''name:'' @ x) (clock 0) repo) = None
          \<longrightarrow> source (fst (loadByName env clock x repo)) = src)"
    using nm current first loads by (rule loadByName_current)
  have 2: "result_block (fst (loadByName env clock' x (snd (loadByName env clock x repo))))
         = Some bw"
  proof (cases "fst (getCachedBlock (''name:'' @ x) (clock 0) repo)")
    case None
    with nm show ?thesis using first loads by (rule loadByName_again)
  next
    case (Some hit)
    with current have "memoizedOver env repo" by simp
    then have m: "memoizedOver env (snd (loadByName env clock x repo))"
      by (rule memoizedOver.lookedUp)
    have f: "firstExistingFile env x (getSearchPaths env (snd (loadByName env clock x repo)))
               = Some (?file, src)"
      unfolding getSearchPaths_loadByName by (rule first)
    from loadByName_current [where c = clock', OF nm disjI2 [OF m] f loads]
    show ?thesis by simp
  qed
  from 1 2 show ?thesis by simp
qed

lemma rank_decides_loadAll:
  assumes rank: "rankedDirectories env repo = higher @ (dir, src) # lower"
    and unnamed: "list_all (\<lambda>e. list_all (\<lambda>b. name b \<noteq> x) (blocksOfSource env e)) higher"
    and ext: "ext = ''.yaml'' \<or> ext = ''.yml'' \<and> Q"
    and listed: "readdir env dir = Inr files" "x @ ext \<in> set files"
    and loads: "success (loadBlockFromFile env (pathJoin dir (x @ ext)) src)"
      "result_block (loadBlockFromFile env (pathJoin dir (x @ ext)) src) = Some bw"
      "name bw = x"
  shows "list_ex (\<lambda>b. filter (\<lambda>b. name b = x) (loadAll env repo) = [b])
          (blocksOfSource env (dir, src))
     \<and> (list_all (\<lambda>b. name b = x \<longrightarrow> b = bw) (blocksOfSource env (dir, src))
         \<longrightarrow> filter (\<lambda>b. name b = x) (loadAll env repo) = [bw])"
proof -
  let ?bs = "blocksOfSource env (dir, src)"
  have e: "endsWith (x @ ext) ''.yaml'' \<or> endsWith (x @ ext) ''.yml''"
    using ext suffix_yaml by auto
  have mem: "bw \<in> set ?bs"
    using listed e loads(1,2) by (rule listed_block)
  have none: "list_all (\<lambda>e. \<not> list_ex (\<lambda>b. name b = x) (blocksOfSource env e)) higher"
    using unnamed by (auto simp: list_all_iff list_ex_iff)
  have here: "list_ex (\<lambda>b. name b = x) ?bs"
    using mem loads(3) by (auto simp: list_ex_iff)
  have all: "filter (\<lambda>b. name b = x) (loadAll env repo) = [last (filter (\<lambda>b. name b = x) ?bs)]"
    unfolding loadAll_named rank
    by (simp add: find_highest [where P = "\<lambda>e. list_ex (\<lambda>b. name b = x) (blocksOfSource env e)",
          OF none here])
  have 1: "list_ex (\<lambda>b. filter (\<lambda>b. name b = x) (loadAll env repo) = [b]) ?bs"
    unfolding list_ex_iff all using last_named_member [OF mem loads(3)] by blast
  have 2: "list_all (\<lambda>b. name b = x \<longrightarrow> b = bw) ?bs
         \<longrightarrow> filter (\<lambda>b. name b = x) (loadAll env repo) = [bw]"
    unfolding all using last_named_unique [OF mem loads(3)] by simp
  from 1 2 show ?thesis by simp
qed

text \<open>
  C2, as amended. The search paths are the ranked directories: the directories of the
  workspace source (that of the workspace root path, then those of the workspace
  folders), then that of the global and then that of the defaults root path. For every
  name \<open>n\<close>, the block named \<open>n\<close> in the result of \<^verbatim>\<open>loadAll\<close> is the last block of that
  name in the highest-ranked directory that contributes one, whatever the priorities of
  the blocks: the sources are gone through from the lowest to the highest rank and each
  block is set under its name. For \<^verbatim>\<open>loadByName\<close>, let \<open>dir\<close> be a ranked directory
  of source \<open>src\<close> such that no directory ranked above it holds a file of the name
  \<open>x\<close>, and let the file of the name in \<open>dir\<close> (\<open>x.yaml\<close>, or \<open>x.yml\<close> where there is
  no \<open>x.yaml\<close>) load to the block \<open>bw\<close>. Then a lookup that finds no live memo entry,
  and every lookup by a repository whose memo cache was filled over this file system,
  succeeds with \<open>bw\<close>, whatever the directories ranked below hold; without a live memo
  entry the source returned is \<open>src\<close>; and the lookup that follows returns \<open>bw\<close> again.
  When moreover \<open>dir\<close> lists that file, \<open>bw\<close> is named \<open>x\<close> and no directory ranked
  above contributes a block named \<open>x\<close>, the block named \<open>x\<close> in the result of
  \<^verbatim>\<open>loadAll\<close> is a block of \<open>dir\<close>: \<open>bw\<close>, when no other block there bears the name.
\<close>

theorem source_rank_decides:
  "getSearchPaths env repo = rankedDirectories env repo
   \<and> filter (\<lambda>b. name b = n) (loadAll env repo) =
       (case find (\<lambda>e. list_ex (\<lambda>b. name b = n) (blocksOfSource env e))
               (rankedDirectories env repo) of
          None \<Rightarrow> []
        | Some e \<Rightarrow> [last (filter (\<lambda>b. name b = n) (blocksOfSource env e))])
   \<and> (matchesNamePattern x
      \<and> (fst (getCachedBlock (''name:'' @ x) (clock 0) repo) = None \<or> memoizedOver env repo)
      \<and> rankedDirectories env repo = higher @ (dir, src) # lower
      \<and> list_all (\<lambda>e. \<not> fileExistsAtPath env (pathJoin (fst e) (x @ ''.yaml''))
                    \<and> \<not> fileExistsAtPath env (pathJoin (fst e) (x @ ''.yml''))) higher
      \<and> (ext = ''.yaml'' \<or>
         ext = ''.yml'' \<and> \<not> fileExistsAtPath env (pathJoin dir (x @ ''.yaml'')))
      \<and> success (loadBlockFromFile env (pathJoin dir (x @ ext)) src)
      \<and> result_block (loadBlockFromFile env (pathJoin dir (x @ ext)) src) = Some bw
      \<longrightarrow> success (fst (loadByName env clock x repo))
        \<and> result_block (fst (loadByName env clock x repo)) = Some bw
        \<and> (fst (getCachedBlock (''name:'' @ x) (clock 0) repo) = None
             \<longrightarrow> source (fst (loadByName env clock x repo)) = src)
        \<and> result_block (fst (loadByName env clock' x (snd (loadByName env clock x repo))))
            = Some bw
        \<and> (name bw = x \<and> readdir env dir = Inr files \<and> x @ ext \<in> set files
           \<and> list_all (\<lambda>e. list_all (\<lambda>b. name b \<noteq> x) (blocksOfSource env e)) higher
           \<longrightarrow> list_ex (\<lambda>b. filter (\<lambda>b. name b = x) (loadAll env repo) = [b])
                 (blocksOfSource env (dir, src))
             \<and> (list_all (\<lambda>b. name b = x \<longrightarrow> b = bw) (blocksOfSource env (dir, src))
                 \<longrightarrow> filter (\<lambda>b. name b = x) (loadAll env repo) = [bw])))"
proof -
  have paths: "getSearchPaths env repo = rankedDirectories env repo"
    by (rule getSearchPaths_ranked)
  have named: "filter (\<lambda>b. name b = n) (loadAll env repo) =
       (case find (\<lambda>e. list_ex (\<lambda>b. name b = n) (blocksOfSource env e))
               (rankedDirectories env repo) of
          None \<Rightarrow> []
        | Some e \<Rightarrow> [last (filter (\<lambda>b. name b = n) (blocksOfSource env e))])"
    by (rule loadAll_named)
  have decided: "success (fst (loadByName env clock x repo))
        \<and> result_block (fst (loadByName env clock x repo)) = Some bw
        \<and> (fst (getCachedBlock (''name:'' @ x) (clock 0) repo) = None
             \<longrightarrow> source (fst (loadByName env clock x repo)) = src)
        \<and> result_block (fst (loadByName env clock' x (snd (loadByName env clock x repo))))
            = Some bw
        \<and> (name bw = x \<and> readdir env dir = Inr files \<and> x @ ext \<in> set files
           \<and> list_all (\<lambda>e. list_all (\<lambda>b. name b \<noteq> x) (blocksOfSource env e)) higher
           \<longrightarrow> list_ex (\<lambda>b. filter (\<lambda>b. name b = x) (loadAll env repo) = [b])
                 (blocksOfSource env (dir, src))
             \<and> (list_all (\<lambda>b. name b = x \<longrightarrow> b = bw) (blocksOfSource env (dir, src))
                 \<longrightarrow> filter (\<lambda>b. name b = x) (loadAll env repo) = [bw]))"
    if nm: "matchesNamePattern x"
      and current: "fst (getCachedBlock (''name:'' @ x) (clock 0) repo) = None
                    \<or> memoizedOver env repo"
      and rank: "rankedDirectories env repo = higher @ (dir, src) # lower"
      and absent: "list_all (\<lambda>e. \<not> fileExistsAtPath env (pathJoin (fst e) (x @ ''.yaml''))
                    \<and> \<not> fileExistsAtPath env (pathJoin (fst e) (x @ ''.yml''))) higher"
      and ext: "ext = ''.yaml'' \<or>
         ext = ''.yml'' \<and> \<not> fileExistsAtPath env (pathJoin dir (x @ ''.yaml''))"
      and loads: "success (loadBlockFromFile env (pathJoin dir (x @ ext)) src)"
        "result_block (loadBlockFromFile env (pathJoin dir (x @ ext)) src) = Some bw"
  proof -
    note lookup = rank_decides_lookup [where clock = clock and clock' = clock', OF nm current rank absent ext loads]
    have "list_ex (\<lambda>b. filter (\<lambda>b. name b = x) (loadAll env repo) = [b])
                 (blocksOfSource env (dir, src))
             \<and> (list_all (\<lambda>b. name b = x \<longrightarrow> b = bw) (blocksOfSource env (dir, src))
                 \<longrightarrow> filter (\<lambda>b. name b = x) (loadAll env repo) = [bw])"
      if "name bw = x" "readdir env dir = Inr files" "x @ ext \<in> set files"
        "list_all (\<lambda>e. list_all (\<lambda>b. name b \<noteq> x) (blocksOfSource env e)) higher"
      using rank that(4) ext that(2,3) loads that(1) by (rule rank_decides_loadAll)
    with lookup show ?thesis by blast
  qed
  from paths named decided show ?thesis by blast
qed

lemmas example_defs = twoSources_def exampleRepository_def newRepository_def exampleParser_def
  workspaceX_def defaultsX_def simpleBlock_def

lemmas repository_defs = loadByName_def getCachedBlock_def getSearchPaths_def configured_def
  pathJoin_def fileExistsAtPath_def loadAndCache_def loadBlockFromFile_def readFile_def
  cacheBlock_def failedLoad_def repositoryCacheTimeout_def

lemmas create_defs = create_def trim_def trimStart_def trimEnd_def isWhiteSpace_def
  matchesNamePattern_def isNameChar_def asPromptCategory_def getAllCategories_def
  validationError_def

lemmas rank_example_defs = threeSources_def threeRootRepository_def globalX_def
  defaultsOnly_def brokenBesideValid_def rankedDirectories_def workspaceDirectories_def
  promptsDirectory_def workspaceFolderDirectory_def

lemmas directory_defs = blocksOfSource_def loadBlocksFromDirectory_def isDirectory_def
  readdir_def endsWith_def suffix_to_prefix

lemma rankedDirectories_after_lookup:
  "rankedDirectories env' (snd (loadByName env c m repo)) = rankedDirectories env' repo"
  by (simp only: getSearchPaths_ranked [symmetric] getSearchPaths_loadByName)

lemma loadAll_after_lookup: "loadAll env' (snd (loadByName env c m repo)) = loadAll env' repo"
  by (simp add: loadAll_def getSearchPaths_loadByName)

lemma twoSources_loadAll:
  "filter (\<lambda>b. name b = ''x'') (loadAll (twoSources ''Workspace instructions.'') exampleRepository)
     = [workspaceX]"
  unfolding loadAll_named
  by (simp add: rank_example_defs example_defs repository_defs create_defs directory_defs)

text \<open>
  C2, as amended, at two inputs. With three roots and two workspace folders, the
  workspace directories holding no block file, the block \<open>x\<close> of the global directory
  wins over the block of the defaults, of different content and higher priority, in
  \<^verbatim>\<open>loadByName\<close> and in \<^verbatim>\<open>loadAll\<close>. With a workspace and defaults that both hold
  \<open>x.yaml\<close>, a repository that has looked the name up before returns the workspace
  version, from its memo cache, and so does \<^verbatim>\<open>loadAll\<close>.
\<close>

theorem source_rank_decides_witness:
  "rankedDirectories threeSources threeRootRepository
     = [(''/ws/.oacode/prompts'', ''workspace''), (''/other/.oacode/prompts'', ''workspace''),
        (''/home/.oacode/prompts'', ''global''), (''/ext/defaults/blocks/prompts'', ''defaults'')]
   \<and> getSearchPaths threeSources threeRootRepository
       = rankedDirectories threeSources threeRootRepository
   \<and> result_block (loadBlockFromFile threeSources
        ''/ext/defaults/blocks/prompts/x.yaml'' ''defaults'') = Some defaultsX
   \<and> priority globalX < priority defaultsX
   \<and> result_block (fst (loadByName threeSources (\<lambda>i. 0) ''x'' threeRootRepository))
       = Some globalX
   \<and> source (fst (loadByName threeSources (\<lambda>i. 0) ''x'' threeRootRepository)) = ''global''
   \<and> filter (\<lambda>b. name b = ''x'') (loadAll threeSources threeRootRepository) = [globalX]
   \<and> memoizedOver (twoSources ''Workspace instructions.'') lookedUpRepository
   \<and> fst (getCachedBlock (''name:'' @ ''x'') 1000 lookedUpRepository) \<noteq> None
   \<and> result_block (fst (loadByName (twoSources ''Workspace instructions.'') (\<lambda>i. 1000) ''x''
        lookedUpRepository)) = Some workspaceX
   \<and> filter (\<lambda>b. name b = ''x'')
        (loadAll (twoSources ''Workspace instructions.'') lookedUpRepository) = [workspaceX]"
proof -
  let ?env = threeSources
  let ?repo = threeRootRepository
  let ?higher = "[(''/ws/.oacode/prompts'', ''workspace''),
                  (''/other/.oacode/prompts'', ''workspace'')]"
  let ?lower = "[(''/ext/defaults/blocks/prompts'', ''defaults'')]"
  have nm: "matchesNamePattern ''x''" by (simp add: create_defs)
  have miss: "fst (getCachedBlock (''name:'' @ ''x'') 0 ?repo) = None"
    by (simp add: rank_example_defs example_defs repository_defs)
  have rank: "rankedDirectories ?env ?repo
      = ?higher @ (''/home/.oacode/prompts'', ''global'') # ?lower"
    by (simp add: rank_example_defs newRepository_def pathJoin_def)
  have absent: "list_all (\<lambda>e. \<not> fileExistsAtPath ?env (pathJoin (fst e) (''x'' @ ''.yaml''))
       \<and> \<not> fileExistsAtPath ?env (pathJoin (fst e) (''x'' @ ''.yml''))) ?higher"
    by (simp add: rank_example_defs fileExistsAtPath_def pathJoin_def)
  have ext: "''.yaml'' = ''.yaml'' \<or>
      ''.yaml'' = ''.yml''
      \<and> \<not> fileExistsAtPath ?env (pathJoin ''/home/.oacode/prompts'' (''x'' @ ''.yaml''))"
    by simp
  have loaded: "loadBlockFromFile ?env
      (pathJoin ''/home/.oacode/prompts'' (''x'' @ ''.yaml'')) ''global''
     = \<lparr>success = True, result_block = Some globalX, error = None, source = ''global'',
        filePath = Some ''/home/.oacode/prompts/x.yaml''\<rparr>"
    by (simp add: rank_example_defs example_defs repository_defs create_defs)
  have loads: "success (loadBlockFromFile ?env
      (pathJoin ''/home/.oacode/prompts'' (''x'' @ ''.yaml'')) ''global'')"
    "result_block (loadBlockFromFile ?env
      (pathJoin ''/home/.oacode/prompts'' (''x'' @ ''.yaml'')) ''global'') = Some globalX"
    "name globalX = ''x''"
    using loaded by (simp_all add: globalX_def simpleBlock_def)
  have listed: "readdir ?env ''/home/.oacode/prompts'' = Inr [''x.yaml'']"
    "''x'' @ ''.yaml'' \<in> set [''x.yaml'']"
    by (simp_all add: rank_example_defs readdir_def)
  have unnamed: "list_all (\<lambda>e. list_all (\<lambda>b. name b \<noteq> ''x'') (blocksOfSource ?env e)) ?higher"
    by (simp add: rank_example_defs directory_defs)
  have "blocksOfSource ?env (''/home/.oacode/prompts'', ''global'') = [globalX]"
    by (simp add: rank_example_defs example_defs repository_defs create_defs directory_defs)
  then have uniq: "list_all (\<lambda>b. name b = ''x'' \<longrightarrow> b = globalX)
      (blocksOfSource ?env (''/home/.oacode/prompts'', ''global''))"
    by simp
  have d: "result_block (loadBlockFromFile ?env
        ''/ext/defaults/blocks/prompts/x.yaml'' ''defaults'') = Some defaultsX"
    by (simp add: rank_example_defs example_defs repository_defs create_defs)
  have p: "priority globalX < priority defaultsX"
    by (simp add: rank_example_defs example_defs)
  have r: "rankedDirectories threeSources threeRootRepository
     = [(''/ws/.oacode/prompts'', ''workspace''), (''/other/.oacode/prompts'', ''workspace''),
        (''/home/.oacode/prompts'', ''global''), (''/ext/defaults/blocks/prompts'', ''defaults'')]"
    using rank by simp
  from source_rank_decides [where env = ?env and repo = ?repo and x = "''x''"
      and clock = "\<lambda>i. 0" and higher = ?higher and dir = "''/home/.oacode/prompts''"
      and src = "''global''" and lower = ?lower and ext = "''.yaml''" and bw = globalX
      and files = "[''x.yaml'']" and n = "''x''"]
  have global: "getSearchPaths ?env ?repo = rankedDirectories ?env ?repo
    \<and> result_block (fst (loadByName ?env (\<lambda>i. 0) ''x'' ?repo)) = Some globalX
    \<and> source (fst (loadByName ?env (\<lambda>i. 0) ''x'' ?repo)) = ''global''
    \<and> filter (\<lambda>b. name b = ''x'') (loadAll ?env ?repo) = [globalX]"
    using nm miss rank absent ext loads listed unnamed uniq by blast
  let ?env' = "twoSources ''Workspace instructions.''"
  let ?lower' = "[(''/ext/defaults/blocks/prompts'', ''defaults'')]"
  have m: "memoizedOver ?env' lookedUpRepository"
    unfolding lookedUpRepository_def exampleRepository_def
    by (rule memoizedOver.lookedUp [OF memoizedOver.created])
  have hit: "fst (getCachedBlock (''name:'' @ ''x'') 1000 lookedUpRepository) \<noteq> None"
    by (simp add: lookedUpRepository_def example_defs repository_defs create_defs)
  have rank': "rankedDirectories ?env' lookedUpRepository
      = [] @ (''/ws/.oacode/prompts'', ''workspace'') # ?lower'"
    unfolding lookedUpRepository_def rankedDirectories_after_lookup
    by (simp add: rank_example_defs example_defs pathJoin_def)
  have absent': "list_all (\<lambda>e. \<not> fileExistsAtPath ?env' (pathJoin (fst e) (''x'' @ ''.yaml''))
       \<and> \<not> fileExistsAtPath ?env' (pathJoin (fst e) (''x'' @ ''.yml''))) []"
    by simp
  have ext': "''.yaml'' = ''.yaml'' \<or>
      ''.yaml'' = ''.yml''
      \<and> \<not> fileExistsAtPath ?env' (pathJoin ''/ws/.oacode/prompts'' (''x'' @ ''.yaml''))"
    by simp
  have loaded': "loadBlockFromFile ?env'
      (pathJoin ''/ws/.oacode/prompts'' (''x'' @ ''.yaml'')) ''workspace''
     = \<lparr>success = True, result_block = Some workspaceX, error = None, source = ''workspace'',
        filePath = Some ''/ws/.oacode/prompts/x.yaml''\<rparr>"
    by (simp add: example_defs repository_defs create_defs)
  have loads': "success (loadBlockFromFile ?env'
      (pathJoin ''/ws/.oacode/prompts'' (''x'' @ ''.yaml'')) ''workspace'')"
    "result_block (loadBlockFromFile ?env'
      (pathJoin ''/ws/.oacode/prompts'' (''x'' @ ''.yaml'')) ''workspace'') = Some workspaceX"
    "name workspaceX = ''x''"
    using loaded' by (simp_all add: workspaceX_def simpleBlock_def)
  have listed': "readdir ?env' ''/ws/.oacode/prompts'' = Inr [''x.yaml'']"
    "''x'' @ ''.yaml'' \<in> set [''x.yaml'']"
    by (simp_all add: example_defs readdir_def)
  have unnamed': "list_all (\<lambda>e. list_all (\<lambda>b. name b \<noteq> ''x'') (blocksOfSource ?env' e)) []"
    by simp
  have "blocksOfSource ?env' (''/ws/.oacode/prompts'', ''workspace'') = [workspaceX]"
    by (simp add: example_defs repository_defs create_defs directory_defs)
  then have uniq': "list_all (\<lambda>b. name b = ''x'' \<longrightarrow> b = workspaceX)
      (blocksOfSource ?env' (''/ws/.oacode/prompts'', ''workspace''))"
    by simp
  from source_rank_decides [where env = ?env' and repo = lookedUpRepository and x = "''x''"
      and clock = "\<lambda>i. 1000" and higher = "[]" and dir = "''/ws/.oacode/prompts''"
      and src = "''workspace''" and lower = ?lower' and ext = "''.yaml''" and bw = workspaceX
      and files = "[''x.yaml'']" and n = "''x''"]
  have workspace:
    "result_block (fst (loadByName ?env' (\<lambda>i. 1000) ''x'' lookedUpRepository)) = Some workspaceX
    \<and> filter (\<lambda>b. name b = ''x'') (loadAll ?env' lookedUpRepository) = [workspaceX]"
    using nm m rank' absent' ext' loads' listed' unnamed' uniq' by blast
  from global workspace r d p m hit show ?thesis by simp
qed

text \<open>
  C2 as stated has \<^verbatim>\<open>loadByName\<close> return the workspace version whenever the workspace
  and the defaults both hold a block named \<open>x\<close>. Here the name was looked up while the
  defaults alone held the file, and the block was memoized; a minute later the
  workspace holds a file \<open>x.yaml\<close> of different content. \<^verbatim>\<open>loadByName\<close> is answered
  from the memo cache with the version of the defaults, while \<^verbatim>\<open>loadAll\<close> returns the
  workspace version.
\<close>

theorem loadByName_stale_memo_counterexample:
  "result_block (fst (loadByName defaultsOnly (\<lambda>i. 0) ''x'' exampleRepository)) = Some defaultsX
   \<and> result_block (loadBlockFromFile (twoSources ''Workspace instructions.'')
        ''/ws/.oacode/prompts/x.yaml'' ''workspace'') = Some workspaceX
   \<and> result_block (loadBlockFromFile (twoSources ''Workspace instructions.'')
        ''/ext/defaults/blocks/prompts/x.yaml'' ''defaults'') = Some defaultsX
   \<and> prompt workspaceX \<noteq> prompt defaultsX
   \<and> success (fst (loadByName (twoSources ''Workspace instructions.'') (\<lambda>i. 60000) ''x''
        staleRepository))
   \<and> result_block (fst (loadByName (twoSources ''Workspace instructions.'') (\<lambda>i. 60000) ''x''
        staleRepository)) = Some defaultsX
   \<and> filter (\<lambda>b. name b = ''x'')
        (loadAll (twoSources ''Workspace instructions.'') staleRepository) = [workspaceX]"
proof -
  have 1: "filter (\<lambda>b. name b = ''x'')
        (loadAll (twoSources ''Workspace instructions.'') staleRepository) = [workspaceX]"
    unfolding staleRepository_def loadAll_after_lookup by (rule twoSources_loadAll)
  have 2: "result_block (fst (loadByName defaultsOnly (\<lambda>i. 0) ''x'' exampleRepository)) = Some defaultsX
   \<and> result_block (loadBlockFromFile (twoSources ''Workspace instructions.'')
        ''/ws/.oacode/prompts/x.yaml'' ''workspace'') = Some workspaceX
   \<and> result_block (loadBlockFromFile (twoSources ''Workspace instructions.'')
        ''/ext/defaults/blocks/prompts/x.yaml'' ''defaults'') = Some defaultsX
   \<and> prompt workspaceX \<noteq> prompt defaultsX
   \<and> success (fst (loadByName (twoSources ''Workspace instructions.'') (\<lambda>i. 60000) ''x''
        staleRepository))
   \<and> result_block (fst (loadByName (twoSources ''Workspace instructions.'') (\<lambda>i. 60000) ''x''
        staleRepository)) = Some defaultsX"
    by (simp add: staleRepository_def rank_example_defs example_defs repository_defs create_defs)
  from 1 2 show ?thesis by simp
qed

text \<open>
  Why the amended C2 asks that the first existing file of the directory loads: where the
  workspace holds an \<open>x.yaml\<close> that does not parse beside a valid \<open>x.yml\<close>,
  \<^verbatim>\<open>loadAll\<close> returns the block of \<open>x.yml\<close> and \<^verbatim>\<open>loadByName\<close> the failure of
  \<open>x.yaml\<close>.
\<close>

theorem loadByName_broken_beside_valid:
  "result_block (loadBlockFromFile brokenBesideValid ''/ws/.oacode/prompts/x.yml'' ''workspace'')
     = Some workspaceX
   \<and> \<not> success (fst (loadByName brokenBesideValid (\<lambda>i. 0) ''x'' exampleRepository))
   \<and> result_block (fst (loadByName brokenBesideValid (\<lambda>i. 0) ''x'' exampleRepository)) = None
   \<and> filter (\<lambda>b. name b = ''x'') (loadAll brokenBesideValid exampleRepository) = [workspaceX]"
proof -
  have 1: "filter (\<lambda>b. name b = ''x'') (loadAll brokenBesideValid exampleRepository) = [workspaceX]"
    unfolding loadAll_named
    by (simp add: rank_example_defs example_defs repository_defs create_defs directory_defs)
  have 2: "result_block (loadBlockFromFile brokenBesideValid ''/ws/.oacode/prompts/x.yml'' ''workspace'')
     = Some workspaceX
   \<and> \<not> success (fst (loadByName brokenBesideValid (\<lambda>i. 0) ''x'' exampleRepository))
   \<and> result_block (fst (loadByName brokenBesideValid (\<lambda>i. 0) ''x'' exampleRepository)) = None"
    by (simp add: rank_example_defs example_defs repository_defs create_defs)
  from 1 2 show ?thesis by simp
qed

text \<open>
  C5, as amended, where the file of the workspace does not parse: its failure is the
  result.
\<close>

theorem loadByName_first_existing_witness:
  "matchesNamePattern ''x''
   \<and> fst (getCachedBlock (''name:'' @ ''x'') 0 exampleRepository) = None
   \<and> firstExistingFile (twoSources ''broken'') ''x''
        (getSearchPaths (twoSources ''broken'') exampleRepository)
       = Some (''/ws/.oacode/prompts/x.yaml'', ''workspace'')
   \<and> fst (loadByName (twoSources ''broken'') (\<lambda>i. 0) ''x'' exampleRepository)
       = loadBlockFromFile (twoSources ''broken'') ''/ws/.oacode/prompts/x.yaml'' ''workspace''"
proof -
  have nm: "matchesNamePattern ''x''" by (simp add: create_defs)
  have miss: "fst (getCachedBlock (''name:'' @ ''x'') ((\<lambda>i. 0) 0) exampleRepository) = None"
    by (simp add: example_defs repository_defs)
  have first: "firstExistingFile (twoSources ''broken'') ''x''
        (getSearchPaths (twoSources ''broken'') exampleRepository)
       = Some (''/ws/.oacode/prompts/x.yaml'', ''workspace'')"
    by (simp add: example_defs repository_defs firstExistingFile_def candidateFiles_def)
  show ?thesis
    using nm miss first loadByName_first_existing [OF nm miss, of "twoSources ''broken''"]
    by simp
qed

text \<open>
  C6 (the code does not do what the claim says). \<^verbatim>\<open>loadByName\<close> memoizes a loaded block
  with the file's path where \<^verbatim>\<open>cacheBlock\<close> expects the source, and a call answered
  from the memo cache returns that path as its \<open>source\<close>: the first call below returns
  the source \<open>workspace\<close>, the second, a second later, the path of the file.
\<close>

theorem memo_hit_source_is_path:
  "source (fst (loadByName (twoSources ''Workspace instructions.'') (\<lambda>i. 0) ''x''
      exampleRepository)) = ''workspace''
   \<and> success (fst (loadByName (twoSources ''Workspace instructions.'') (\<lambda>i. 1000) ''x''
        (snd (loadByName (twoSources ''Workspace instructions.'') (\<lambda>i. 0) ''x''
           exampleRepository))))
   \<and> source (fst (loadByName (twoSources ''Workspace instructions.'') (\<lambda>i. 1000) ''x''
        (snd (loadByName (twoSources ''Workspace instructions.'') (\<lambda>i. 0) ''x''
           exampleRepository))))
       = ''/ws/.oacode/prompts/x.yaml''
   \<and> source (fst (loadByName (twoSources ''Workspace instructions.'') (\<lambda>i. 1000) ''x''
        (snd (loadByName (twoSources ''Workspace instructions.'') (\<lambda>i. 0) ''x''
           exampleRepository))))
       \<notin> {''workspace'', ''global'', ''defaults''}"
  by (simp add: example_defs repository_defs create_defs)

text \<open>
  C5 as stated has the valid block of a lower-ranked source returned when the file of the
  highest-ranked source fails to parse. Here the workspace file does not parse and the
  file of the defaults holds a valid block; the lookup fails.
\<close>

theorem loadByName_broken_counterexample:
  "matchesNamePattern ''x''
   \<and> \<not> success (loadBlockFromFile (twoSources ''broken'')
          ''/ws/.oacode/prompts/x.yaml'' ''workspace'')
   \<and> result_block (loadBlockFromFile (twoSources ''broken'')
        ''/ext/defaults/blocks/prompts/x.yaml'' ''defaults'') = Some defaultsX
   \<and> \<not> success (fst (loadByName (twoSources ''broken'') (\<lambda>i. 0) ''x'' exampleRepository))
   \<and> result_block (fst (loadByName (twoSources ''broken'') (\<lambda>i. 0) ''x'' exampleRepository))
       = None"
  by (simp add: example_defs repository_defs create_defs)

end
